theory Spec2Isabelle
  imports Main
begin

section \<open>The teacher import scripts\<close>

text \<open>
  The repository holds two scripts that load the same CSV file of teacher, batch and
  enrollment rows into three tables of a PostgreSQL store: \<^verbatim>\<open>fast-import.py\<close>
  (function \<^verbatim>\<open>import_data\<close>), which writes while it reads, and
  \<^verbatim>\<open>production-import.py\<close> (function \<^verbatim>\<open>import_production_data\<close>), which
  reads the whole file first and writes everything in one transaction.

  A Python \<^verbatim>\<open>str\<close> is a \<open>string\<close>; one \<open>char\<close> stands for one character of the
  \<^verbatim>\<open>str\<close>. A CSV row, as \<^verbatim>\<open>csv.reader\<close> yields it, is a list of strings.

  The exceptions of a run are those the scripts can meet on their own input: the
  connection cannot be made, the file cannot be opened or has no header line, a row
  cannot be unpacked, the store refuses a tuple. Once made, the connection is taken to
  stay up, so \<^verbatim>\<open>commit\<close>, \<^verbatim>\<open>rollback\<close> and the counting queries do not
  raise. The messages the scripts print and the read-only counting queries after the
  last commit change no state and are left out.
\<close>

subsection \<open>Rows and records\<close>

type_synonym row = "string list"

text \<open>
  The tuples handed to \<^verbatim>\<open>executemany\<close>, in the column order of the three INSERT
  statements:
  teachers (teacher\_id, teacher\_name, mobile, district, service\_type, training\_group),
  batches (batch\_name, district, coordinator\_name, service\_type, training\_group),
  batch\_teachers (batch\_name, teacher\_mobile, teacher\_name, district).
\<close>

type_synonym teacher_rec = "string option \<times> string \<times> string \<times> string \<times> string \<times> string"
type_synonym batch_rec = "string \<times> string \<times> string \<times> string \<times> string"
type_synonym link_rec = "string \<times> string \<times> string \<times> string"

text \<open>
  The exceptions caught inside the \<^verbatim>\<open>try\<close> of a script: the file cannot be opened,
  \<^verbatim>\<open>next(reader)\<close> finds no line, a row has too many values to unpack, a bulk
  insert is refused by the store.
\<close>

datatype error = FileError | StopIteration | ValueError | DataError

subsection \<open>Field cleaning\<close>

text \<open>\<^verbatim>\<open>[0-9]\<close> of the regular expression in \<^verbatim>\<open>fast-import.py\<close>: the ten ASCII digits.\<close>

definition ascii_digit :: "char \<Rightarrow> bool" where
  "ascii_digit c \<longleftrightarrow> c \<in> set ''0123456789''"

text \<open>
  Lines 34 to 37 of \<^verbatim>\<open>fast-import.py\<close>:
  \<^verbatim>\<open>mobile = re.sub(r'[^0-9]', '', phone_number)\<close>, then the row is skipped
  (\<open>None\<close>) \<^verbatim>\<open>if len(mobile) < 10 or phone_number == 'null'\<close>, else
  \<^verbatim>\<open>mobile = mobile[:10]\<close>.
\<close>

definition fast_clean_phone :: "string \<Rightarrow> string option" where
  "fast_clean_phone phone_number =
     (let mobile = filter ascii_digit phone_number
      in if length mobile < 10 \<or> phone_number = ''null'' then None
         else Some (take 10 mobile))"

text \<open>
  \<^verbatim>\<open>clean_phone_number\<close> of \<^verbatim>\<open>production-import.py\<close>. It keeps the characters
  that \<^verbatim>\<open>str.isdigit\<close> accepts; that predicate belongs to the Python library (it
  accepts the ASCII digits and further Unicode digits), so it is the parameter
  \<open>isdigit\<close> here. Python's \<^verbatim>\<open>None\<close> is \<open>None\<close>.
\<close>

definition clean_phone_number :: "(char \<Rightarrow> bool) \<Rightarrow> string \<Rightarrow> string option" where
  "clean_phone_number isdigit phone =
     (if phone = [] \<or> phone = ''null'' then None
      else let digits = filter isdigit phone
           in if length digits \<ge> 10 then Some (take 10 digits) else None)"

text \<open>\<^verbatim>\<open>None if teacher_id == 'null' or not teacher_id else teacher_id\<close>\<close>

definition clean_teacher_id :: "string \<Rightarrow> string option" where
  "clean_teacher_id teacher_id =
     (if teacher_id = ''null'' \<or> teacher_id = [] then None else Some teacher_id)"

text \<open>\<^verbatim>\<open>x or 'Primary'\<close>: an empty string is false in Python.\<close>

definition or_primary :: "string \<Rightarrow> string" where
  "or_primary x = (if x = [] then ''Primary'' else x)"

text \<open>\<^verbatim>\<open>batch_name and batch_name != 'null'\<close>\<close>

definition has_batch :: "string \<Rightarrow> bool" where
  "has_batch batch_name \<longleftrightarrow> batch_name \<noteq> [] \<and> batch_name \<noteq> ''null''"

subsection \<open>The store\<close>

text \<open>
  The store is PostgreSQL, reached through psycopg2; it is not part of the repository.
  What the scripts rely on is written in their SQL: every statement is
  \<^verbatim>\<open>INSERT ... ON CONFLICT (key) DO NOTHING\<close>, with the key \<^verbatim>\<open>mobile\<close> for
  teachers, \<^verbatim>\<open>batch_name\<close> for batches and \<^verbatim>\<open>(batch_name, teacher_mobile)\<close> for
  batch\_teachers. A table is the list of its rows in insertion order.
\<close>

record store =
  teachers :: "teacher_rec list"
  batches :: "batch_rec list"
  batch_teachers :: "link_rec list"

definition teacher_key :: "teacher_rec \<Rightarrow> string" where
  "teacher_key t = (case t of (teacher_id, teacher_name, mobile, rest) \<Rightarrow> mobile)"

definition batch_key :: "batch_rec \<Rightarrow> string" where
  "batch_key b = (case b of (batch_name, rest) \<Rightarrow> batch_name)"

definition link_key :: "link_rec \<Rightarrow> string \<times> string" where
  "link_key l = (case l of (batch_name, teacher_mobile, rest) \<Rightarrow> (batch_name, teacher_mobile))"

text \<open>One INSERT with ON CONFLICT DO NOTHING: a row whose key is present is skipped.\<close>

definition insert_skip :: "('r \<Rightarrow> 'k) \<Rightarrow> 'r \<Rightarrow> 'r list \<Rightarrow> 'r list" where
  "insert_skip key r tbl = (if key r \<in> key ` set tbl then tbl else tbl @ [r])"

text \<open>
  \<^verbatim>\<open>cursor.executemany(sql, chunk)\<close> runs the statement once for each tuple of the
  chunk, in order, inside the open transaction. A data-level error is a violation of a
  store-side rule by the values of one tuple (a constraint on a column, a value that does
  not fit the column's type); the store checks the tuple before it looks for a key
  conflict. Which tuples the store refuses is not written in the repository, so it is
  the parameter \<open>bad\<close>. The first refused tuple raises; the tuples before it stay
  inserted in the open transaction until it is rolled back.
\<close>

fun insert_many :: "('r \<Rightarrow> 'k) \<Rightarrow> ('r \<Rightarrow> bool) \<Rightarrow> 'r list \<Rightarrow> 'r list \<Rightarrow> error option \<times> 'r list" where
  "insert_many key bad [] tbl = (None, tbl)"
| "insert_many key bad (r # rs) tbl =
     (if bad r then (Some DataError, tbl)
      else insert_many key bad rs (insert_skip key r tbl))"

record rules =
  teacher_bad :: "teacher_rec \<Rightarrow> bool"
  batch_bad :: "batch_rec \<Rightarrow> bool"
  link_bad :: "link_rec \<Rightarrow> bool"

text \<open>
  A connection: the committed tables, the tables as the open transaction sees them, and
  the calls made on the connection and its cursor so far, oldest first.
\<close>

datatype call =
    InsertTeachers "teacher_rec list"
  | InsertBatches "batch_rec list"
  | InsertLinks "link_rec list"
  | Commit
  | Rollback

record conn =
  committed :: store
  working :: store
  calls :: "call list"

definition connect :: "store \<Rightarrow> conn" where
  "connect db = \<lparr>committed = db, working = db, calls = []\<rparr>"

definition commit :: "conn \<Rightarrow> conn" where
  "commit c = c\<lparr>committed := working c, calls := calls c @ [Commit]\<rparr>"

definition rollback :: "conn \<Rightarrow> conn" where
  "rollback c = c\<lparr>working := committed c, calls := calls c @ [Rollback]\<rparr>"

definition executemany_teachers :: "rules \<Rightarrow> teacher_rec list \<Rightarrow> conn \<Rightarrow> error option \<times> conn" where
  "executemany_teachers R chunk c =
     (case insert_many teacher_key (teacher_bad R) chunk (teachers (working c)) of
        (e, tbl) \<Rightarrow>
          (e, c\<lparr>working := (working c)\<lparr>teachers := tbl\<rparr>,
                 calls := calls c @ [InsertTeachers chunk]\<rparr>))"

definition executemany_batches :: "rules \<Rightarrow> batch_rec list \<Rightarrow> conn \<Rightarrow> error option \<times> conn" where
  "executemany_batches R chunk c =
     (case insert_many batch_key (batch_bad R) chunk (batches (working c)) of
        (e, tbl) \<Rightarrow>
          (e, c\<lparr>working := (working c)\<lparr>batches := tbl\<rparr>,
                 calls := calls c @ [InsertBatches chunk]\<rparr>))"

definition executemany_links :: "rules \<Rightarrow> link_rec list \<Rightarrow> conn \<Rightarrow> error option \<times> conn" where
  "executemany_links R chunk c =
     (case insert_many link_key (link_bad R) chunk (batch_teachers (working c)) of
        (e, tbl) \<Rightarrow>
          (e, c\<lparr>working := (working c)\<lparr>batch_teachers := tbl\<rparr>,
                 calls := calls c @ [InsertLinks chunk]\<rparr>))"

text \<open>
  What a script is run in: whether \<^verbatim>\<open>psycopg2.connect\<close> succeeds, and the CSV file
  (\<open>None\<close> when it cannot be opened, else all its rows, the header first).
\<close>

record world =
  reachable :: bool
  csv_file :: "row list option"

text \<open>
  What a run leaves: the exit status of the process, the store after the connection is
  closed (an open transaction is discarded by \<^verbatim>\<open>conn.close()\<close>), and the calls made.
\<close>

record outcome =
  exit_status :: nat
  store_after :: store
  trace :: "call list"

subsection \<open>\<^verbatim>\<open>fast-import.py\<close>\<close>

text \<open>The local variables of \<^verbatim>\<open>import_data\<close> that live across loop rounds.\<close>

record fstate =
  teacher_batch :: "teacher_rec list"
  batch_batch :: "batch_rec list"
  batch_teacher_batch :: "link_rec list"
  unique_batches :: "string set"
  count :: nat
  conn :: conn

definition batch_size :: nat where
  "batch_size = 1000"

definition fast_init :: "conn \<Rightarrow> fstate" where
  "fast_init c =
     \<lparr>teacher_batch = [], batch_batch = [], batch_teacher_batch = [],
      unique_batches = {}, count = 0, conn = c\<rparr>"

text \<open>
  Lines 39 to 72: what one row that passed the checks appends to the three lists.
  \<open>mobile\<close> is the cleaned phone number.
\<close>

definition fast_queue ::
  "string \<Rightarrow> string \<Rightarrow> string \<Rightarrow> string \<Rightarrow> string \<Rightarrow> string \<Rightarrow> string \<Rightarrow> fstate \<Rightarrow> fstate" where
  "fast_queue district batch_name service_type training_group teacher_id teacher_name mobile s =
     (let s1 =
            (if has_batch batch_name \<and> batch_name \<notin> unique_batches s
             then s\<lparr>unique_batches := insert batch_name (unique_batches s),
                    batch_batch := batch_batch s @
                      [(batch_name, district, ''Production Import'',
                        or_primary service_type, or_primary training_group)]\<rparr>
             else s);
          s2 = s1\<lparr>teacher_batch := teacher_batch s1 @
                      [(clean_teacher_id teacher_id, teacher_name, mobile, district,
                        or_primary service_type, or_primary training_group)]\<rparr>;
          s3 =
            (if has_batch batch_name
             then s2\<lparr>batch_teacher_batch := batch_teacher_batch s2 @
                      [(batch_name, mobile, teacher_name, district)]\<rparr>
             else s2)
      in s3\<lparr>count := count s3 + 1\<rparr>)"

text \<open>
  Lines 75 to 116: the three flushes inside the loop. Each is its own
  \<^verbatim>\<open>try\<close>: on success the chunk is committed, on an exception the transaction is
  rolled back; the list is emptied either way.
\<close>

definition flush_teachers :: "rules \<Rightarrow> fstate \<Rightarrow> fstate" where
  "flush_teachers R s =
     (if length (teacher_batch s) \<ge> batch_size then
        (case executemany_teachers R (teacher_batch s) (conn s) of
           (None, c) \<Rightarrow> s\<lparr>conn := commit c, teacher_batch := []\<rparr>
         | (Some e, c) \<Rightarrow> s\<lparr>conn := rollback c, teacher_batch := []\<rparr>)
      else s)"

definition flush_batches :: "rules \<Rightarrow> fstate \<Rightarrow> fstate" where
  "flush_batches R s =
     (if length (batch_batch s) \<ge> 50 then
        (case executemany_batches R (batch_batch s) (conn s) of
           (None, c) \<Rightarrow> s\<lparr>conn := commit c, batch_batch := []\<rparr>
         | (Some e, c) \<Rightarrow> s\<lparr>conn := rollback c, batch_batch := []\<rparr>)
      else s)"

definition flush_links :: "rules \<Rightarrow> fstate \<Rightarrow> fstate" where
  "flush_links R s =
     (if length (batch_teacher_batch s) \<ge> batch_size then
        (case executemany_links R (batch_teacher_batch s) (conn s) of
           (None, c) \<Rightarrow> s\<lparr>conn := commit c, batch_teacher_batch := []\<rparr>
         | (Some e, c) \<Rightarrow> s\<lparr>conn := rollback c, batch_teacher_batch := []\<rparr>)
      else s)"

definition fast_flush :: "rules \<Rightarrow> fstate \<Rightarrow> fstate" where
  "fast_flush R s = flush_links R (flush_batches R (flush_teachers R s))"

text \<open>
  One round of the loop, lines 28 to 116. A row of fewer than 7 fields is skipped; the
  unpacking into seven names raises \<^verbatim>\<open>ValueError\<close> on a row of more than 7
  fields; a row whose phone number is refused is skipped.
\<close>

definition fast_row :: "rules \<Rightarrow> row \<Rightarrow> fstate \<Rightarrow> error option \<times> fstate" where
  "fast_row R row s =
     (if length row < 7 then (None, s)
      else case row of
        [district, batch_name, service_type, training_group, teacher_id, teacher_name,
         phone_number] \<Rightarrow>
          (case fast_clean_phone phone_number of
             None \<Rightarrow> (None, s)
           | Some mobile \<Rightarrow>
               (None, fast_flush R
                  (fast_queue district batch_name service_type training_group teacher_id
                     teacher_name mobile s)))
      | _ \<Rightarrow> (Some ValueError, s))"

fun fast_loop :: "rules \<Rightarrow> row list \<Rightarrow> fstate \<Rightarrow> error option \<times> fstate" where
  "fast_loop R [] s = (None, s)"
| "fast_loop R (row # rows) s =
     (case fast_row R row s of
        (None, s') \<Rightarrow> fast_loop R rows s'
      | (Some e, s') \<Rightarrow> (Some e, s'))"

text \<open>
  Lines 118 to 140: the rest of each list is written, with no \<^verbatim>\<open>try\<close> of its
  own, and one commit follows. An exception leaves for the handler of the function.
\<close>

definition fast_final :: "rules \<Rightarrow> fstate \<Rightarrow> error option \<times> conn" where
  "fast_final R s =
     (case (if teacher_batch s \<noteq> [] then executemany_teachers R (teacher_batch s) (conn s)
            else (None, conn s)) of
        (Some e, c1) \<Rightarrow> (Some e, c1)
      | (None, c1) \<Rightarrow>
     (case (if batch_batch s \<noteq> [] then executemany_batches R (batch_batch s) c1
            else (None, c1)) of
        (Some e, c2) \<Rightarrow> (Some e, c2)
      | (None, c2) \<Rightarrow>
     (case (if batch_teacher_batch s \<noteq> [] then executemany_links R (batch_teacher_batch s) c2
            else (None, c2)) of
        (Some e, c3) \<Rightarrow> (Some e, c3)
      | (None, c3) \<Rightarrow> (None, commit c3))))"

text \<open>
  The body of the \<^verbatim>\<open>try\<close>, lines 12 to 155: the file is opened,
  \<^verbatim>\<open>next(reader)\<close> drops the header (and raises \<^verbatim>\<open>StopIteration\<close> on a file
  with no line), the rows are read, the rest is written.
\<close>

definition fast_body :: "rules \<Rightarrow> row list option \<Rightarrow> conn \<Rightarrow> error option \<times> conn" where
  "fast_body R file c =
     (case file of
        None \<Rightarrow> (Some FileError, c)
      | Some [] \<Rightarrow> (Some StopIteration, c)
      | Some (header # rows) \<Rightarrow>
          (case fast_loop R rows (fast_init c) of
             (Some e, s) \<Rightarrow> (Some e, conn s)
           | (None, s) \<Rightarrow> fast_final R s))"

text \<open>
  \<^verbatim>\<open>import_data\<close>, run as the script runs it. \<^verbatim>\<open>psycopg2.connect\<close> stands
  before the \<^verbatim>\<open>try\<close>: when it raises, the exception is not caught and Python ends
  the process with status 1. The handler \<^verbatim>\<open>except Exception\<close> prints and rolls
  back; after it, as after a run without exception, the function returns and the process
  ends with status 0.
\<close>

definition import_data :: "rules \<Rightarrow> world \<Rightarrow> store \<Rightarrow> outcome" where
  "import_data R w db =
     (if \<not> reachable w then \<lparr>exit_status = 1, store_after = db, trace = []\<rparr>
      else case fast_body R (csv_file w) (connect db) of
        (None, c) \<Rightarrow> \<lparr>exit_status = 0, store_after = committed c, trace = calls c\<rparr>
      | (Some e, c) \<Rightarrow>
          (let c' = rollback c
           in \<lparr>exit_status = 0, store_after = committed c', trace = calls c'\<rparr>))"

subsection \<open>\<^verbatim>\<open>production-import.py\<close>\<close>

text \<open>
  The value stored for a batch name in the dictionary \<^verbatim>\<open>batch_data\<close>: a dictionary
  with the three keys \<^verbatim>\<open>'district'\<close>, \<^verbatim>\<open>'service_type'\<close> and
  \<^verbatim>\<open>'training_group'\<close>.
\<close>

record batch_info =
  info_district :: string
  info_service_type :: string
  info_training_group :: string

text \<open>
  The local variables of \<^verbatim>\<open>import_production_data\<close> that live across loop
  rounds. A Python dictionary keeps its keys in the order of their insertion and
  \<^verbatim>\<open>batch_data.items()\<close> is read in that order, so \<open>batch_data\<close> is an association
  list, new keys at the end.
\<close>

record pstate =
  batch_data :: "(string \<times> batch_info) list"
  teacher_records :: "teacher_rec list"
  batch_teacher_records :: "link_rec list"

definition prod_init :: pstate where
  "prod_init = \<lparr>batch_data = [], teacher_records = [], batch_teacher_records = []\<rparr>"

text \<open>Lines 60 to 88: what one row that passed the checks stores.\<close>

definition prod_queue ::
  "string \<Rightarrow> string \<Rightarrow> string \<Rightarrow> string \<Rightarrow> string \<Rightarrow> string \<Rightarrow> string \<Rightarrow> pstate \<Rightarrow> pstate" where
  "prod_queue district batch_name service_type training_group teacher_id teacher_name mobile s =
     (let s1 =
            (if has_batch batch_name \<and> batch_name \<notin> fst ` set (batch_data s)
             then s\<lparr>batch_data := batch_data s @
                      [(batch_name,
                        \<lparr>info_district = district,
                         info_service_type = or_primary service_type,
                         info_training_group = or_primary training_group\<rparr>)]\<rparr>
             else s);
          s2 = s1\<lparr>teacher_records := teacher_records s1 @
                      [(clean_teacher_id teacher_id, teacher_name, mobile, district,
                        or_primary service_type, or_primary training_group)]\<rparr>
      in if has_batch batch_name
         then s2\<lparr>batch_teacher_records := batch_teacher_records s2 @
                    [(batch_name, mobile, teacher_name, district)]\<rparr>
         else s2)"

text \<open>
  One round of the loop, lines 50 to 91. \<^verbatim>\<open>if not mobile: continue\<close> skips the row
  when \<^verbatim>\<open>clean_phone_number\<close> returned \<^verbatim>\<open>None\<close> (or an empty string).
\<close>

definition prod_row :: "(char \<Rightarrow> bool) \<Rightarrow> row \<Rightarrow> pstate \<Rightarrow> error option \<times> pstate" where
  "prod_row isdigit row s =
     (if length row < 7 then (None, s)
      else case row of
        [district, batch_name, service_type, training_group, teacher_id, teacher_name,
         phone_number] \<Rightarrow>
          (case clean_phone_number isdigit phone_number of
             None \<Rightarrow> (None, s)
           | Some mobile \<Rightarrow>
               if mobile = [] then (None, s)
               else (None, prod_queue district batch_name service_type training_group
                             teacher_id teacher_name mobile s))
      | _ \<Rightarrow> (Some ValueError, s))"

fun prod_loop :: "(char \<Rightarrow> bool) \<Rightarrow> row list \<Rightarrow> pstate \<Rightarrow> error option \<times> pstate" where
  "prod_loop isdigit [] s = (None, s)"
| "prod_loop isdigit (row # rows) s =
     (case prod_row isdigit row s of
        (None, s') \<Rightarrow> prod_loop isdigit rows s'
      | (Some e, s') \<Rightarrow> (Some e, s'))"

text \<open>Lines 98 to 106: the tuples built from \<^verbatim>\<open>batch_data.items()\<close>.\<close>

definition batch_values :: "(string \<times> batch_info) list \<Rightarrow> batch_rec list" where
  "batch_values bd =
     map (\<lambda>(batch_name, data).
            (batch_name, info_district data, ''Production Import'',
             info_service_type data, info_training_group data)) bd"

text \<open>
  \<^verbatim>\<open>records[i:i+batch_size] for i in range(0, len(records), batch_size)\<close>: the
  slices of a list, each of \<open>n\<close> elements but the last, which may be shorter.
\<close>

function slices :: "nat \<Rightarrow> 'a list \<Rightarrow> 'a list list" where
  "slices n xs = (if n = 0 \<or> xs = [] then [] else take n xs # slices n (drop n xs))"
  by pat_completeness auto
termination
  by (relation "measure (\<lambda>(n, xs). length xs)") auto

declare slices.simps [simp del]

text \<open>
  Lines 120 to 126 and 135 to 141: one \<^verbatim>\<open>executemany\<close> for each slice, in order;
  the first exception ends the loop.
\<close>

fun insert_teacher_slices :: "rules \<Rightarrow> teacher_rec list list \<Rightarrow> conn \<Rightarrow> error option \<times> conn" where
  "insert_teacher_slices R [] c = (None, c)"
| "insert_teacher_slices R (batch # rest) c =
     (case executemany_teachers R batch c of
        (Some e, c') \<Rightarrow> (Some e, c')
      | (None, c') \<Rightarrow> insert_teacher_slices R rest c')"

fun insert_link_slices :: "rules \<Rightarrow> link_rec list list \<Rightarrow> conn \<Rightarrow> error option \<times> conn" where
  "insert_link_slices R [] c = (None, c)"
| "insert_link_slices R (batch # rest) c =
     (case executemany_links R batch c of
        (Some e, c') \<Rightarrow> (Some e, c')
      | (None, c') \<Rightarrow> insert_link_slices R rest c')"

text \<open>Lines 96 to 149: the batches in one call, the teachers, the links, one commit.\<close>

definition prod_write :: "rules \<Rightarrow> pstate \<Rightarrow> conn \<Rightarrow> error option \<times> conn" where
  "prod_write R s c =
     (case (if batch_values (batch_data s) \<noteq> []
            then executemany_batches R (batch_values (batch_data s)) c
            else (None, c)) of
        (Some e, c1) \<Rightarrow> (Some e, c1)
      | (None, c1) \<Rightarrow>
     (case insert_teacher_slices R (slices batch_size (teacher_records s)) c1 of
        (Some e, c2) \<Rightarrow> (Some e, c2)
      | (None, c2) \<Rightarrow>
     (case insert_link_slices R (slices batch_size (batch_teacher_records s)) c2 of
        (Some e, c3) \<Rightarrow> (Some e, c3)
      | (None, c3) \<Rightarrow> (None, commit c3))))"

text \<open>The body of the \<^verbatim>\<open>try\<close>, lines 36 to 164.\<close>

definition prod_body ::
  "(char \<Rightarrow> bool) \<Rightarrow> rules \<Rightarrow> row list option \<Rightarrow> conn \<Rightarrow> error option \<times> conn" where
  "prod_body isdigit R file c =
     (case file of
        None \<Rightarrow> (Some FileError, c)
      | Some [] \<Rightarrow> (Some StopIteration, c)
      | Some (header # rows) \<Rightarrow>
          (case prod_loop isdigit rows prod_init of
             (Some e, s) \<Rightarrow> (Some e, c)
           | (None, s) \<Rightarrow> prod_write R s c))"

text \<open>
  \<^verbatim>\<open>import_production_data\<close>, run as the script runs it. The connection is made
  before the \<^verbatim>\<open>try\<close>, as in the other script. The handler prints, rolls back and
  calls \<^verbatim>\<open>sys.exit(1)\<close>.
\<close>

definition import_production_data ::
  "(char \<Rightarrow> bool) \<Rightarrow> rules \<Rightarrow> world \<Rightarrow> store \<Rightarrow> outcome" where
  "import_production_data isdigit R w db =
     (if \<not> reachable w then \<lparr>exit_status = 1, store_after = db, trace = []\<rparr>
      else case prod_body isdigit R (csv_file w) (connect db) of
        (None, c) \<Rightarrow> \<lparr>exit_status = 0, store_after = committed c, trace = calls c\<rparr>
      | (Some e, c) \<Rightarrow>
          (let c' = rollback c
           in \<lparr>exit_status = 1, store_after = committed c', trace = calls c'\<rparr>))"

section \<open>Notions for stating and proving the properties\<close>

subsection \<open>What a run queues and writes\<close>

text \<open>
  The chunks handed to the three bulk inserts, read off the calls of a connection in
  the order of the calls.
\<close>

definition teacher_chunks :: "call list \<Rightarrow> teacher_rec list list" where
  "teacher_chunks cs = concat (map (\<lambda>c. case c of InsertTeachers ch \<Rightarrow> [ch] | _ \<Rightarrow> []) cs)"

definition batch_chunks :: "call list \<Rightarrow> batch_rec list list" where
  "batch_chunks cs = concat (map (\<lambda>c. case c of InsertBatches ch \<Rightarrow> [ch] | _ \<Rightarrow> []) cs)"

definition link_chunks :: "call list \<Rightarrow> link_rec list list" where
  "link_chunks cs = concat (map (\<lambda>c. case c of InsertLinks ch \<Rightarrow> [ch] | _ \<Rightarrow> []) cs)"

text \<open>
  What \<^verbatim>\<open>fast-import.py\<close> has queued for a table up to a state of its loop: the
  tuples of the chunks it has handed to the bulk insert so far, and after them the tuples
  still waiting in the list.
\<close>

definition queued_teachers :: "fstate \<Rightarrow> teacher_rec list" where
  "queued_teachers s = concat (teacher_chunks (calls (conn s))) @ teacher_batch s"

definition queued_batches :: "fstate \<Rightarrow> batch_rec list" where
  "queued_batches s = concat (batch_chunks (calls (conn s))) @ batch_batch s"

definition queued_links :: "fstate \<Rightarrow> link_rec list" where
  "queued_links s = concat (link_chunks (calls (conn s))) @ batch_teacher_batch s"

text \<open>
  A chunk that the store refuses: it holds a tuple that breaks a store-side rule.
\<close>

definition chunk_bad :: "('r \<Rightarrow> bool) \<Rightarrow> 'r list \<Rightarrow> bool" where
  "chunk_bad bad chunk \<longleftrightarrow> (\<exists>r\<in>set chunk. bad r)"

text \<open>
  The state between two rounds of the loop of \<^verbatim>\<open>fast-import.py\<close>: each list is
  below its threshold, and each chunk written so far has exactly the size of its
  threshold.
\<close>

definition below_thresholds :: "fstate \<Rightarrow> bool" where
  "below_thresholds s \<longleftrightarrow>
     length (teacher_batch s) < 1000 \<and> length (batch_batch s) < 50 \<and>
     length (batch_teacher_batch s) < 1000"

definition full_chunks :: "call list \<Rightarrow> bool" where
  "full_chunks cs \<longleftrightarrow>
     (\<forall>ch\<in>set (teacher_chunks cs). length ch = 1000) \<and>
     (\<forall>ch\<in>set (batch_chunks cs). length ch = 50) \<and>
     (\<forall>ch\<in>set (link_chunks cs). length ch = 1000)"

subsection \<open>The rows a loop accepts\<close>

text \<open>
  A row is accepted when it has exactly seven fields and the cleaner of the script
  (\<open>fast_clean_phone\<close>, or \<open>clean_phone_number\<close> with its digit test) returns a
  mobile for its last field. The tuples built from an accepted row, written with the
  fields by position: 0 district, 1 batch name, 2 service type, 3 training group,
  4 teacher id, 5 teacher name, 6 phone number.
\<close>

definition accepted :: "(string \<Rightarrow> string option) \<Rightarrow> row \<Rightarrow> bool" where
  "accepted cleaner row \<longleftrightarrow> length row = 7 \<and> cleaner (row ! 6) \<noteq> None"

definition row_teacher :: "(string \<Rightarrow> string option) \<Rightarrow> row \<Rightarrow> teacher_rec" where
  "row_teacher cleaner row =
     (clean_teacher_id (row ! 4), row ! 5, the (cleaner (row ! 6)), row ! 0,
      or_primary (row ! 2), or_primary (row ! 3))"

definition row_batch :: "row \<Rightarrow> batch_rec" where
  "row_batch row =
     (row ! 1, row ! 0, ''Production Import'', or_primary (row ! 2), or_primary (row ! 3))"

definition row_link :: "(string \<Rightarrow> string option) \<Rightarrow> row \<Rightarrow> link_rec" where
  "row_link cleaner row = (row ! 1, the (cleaner (row ! 6)), row ! 5, row ! 0)"

text \<open>
  An accepted row whose batch name is not empty and not \<^verbatim>\<open>null\<close>.
\<close>

definition names_batch :: "(string \<Rightarrow> string option) \<Rightarrow> row \<Rightarrow> bool" where
  "names_batch cleaner row \<longleftrightarrow> accepted cleaner row \<and> has_batch (row ! 1)"

text \<open>
  The batch tuples of the rows that are the first to name their batch, given the set
  of names seen before.
\<close>

fun first_batches :: "(string \<Rightarrow> string option) \<Rightarrow> string set \<Rightarrow> row list \<Rightarrow> batch_rec list" where
  "first_batches cleaner seen [] = []"
| "first_batches cleaner seen (row # rows) =
     (if names_batch cleaner row \<and> row ! 1 \<notin> seen
      then row_batch row # first_batches cleaner (insert (row ! 1) seen) rows
      else first_batches cleaner seen rows)"

text \<open>
  The rows a loop reads: those before the first row of more than seven fields, at
  which the unpacking raises and the loop ends; all rows when there is no such row.
\<close>

definition rows_read :: "row list \<Rightarrow> row list" where
  "rows_read rows = takeWhile (\<lambda>r. length r \<le> 7) rows"

subsection \<open>Writes in sequence\<close>

text \<open>
  Two writes in sequence; an exception of the first ends the sequence.
\<close>

definition seq ::
  "(conn \<Rightarrow> error option \<times> conn) \<Rightarrow> (conn \<Rightarrow> error option \<times> conn) \<Rightarrow>
     conn \<Rightarrow> error option \<times> conn" where
  "seq f g c = (case f c of (Some e, c1) \<Rightarrow> (Some e, c1) | (None, c1) \<Rightarrow> g c1)"

text \<open>
  A write phase followed by its commit, and what the handler of the function makes of
  the result: after an exception it rolls back.
\<close>

definition finish :: "(conn \<Rightarrow> error option \<times> conn) \<Rightarrow> conn \<Rightarrow> error option \<times> conn" where
  "finish W c = (case W c of (Some e, c1) \<Rightarrow> (Some e, c1) | (None, c1) \<Rightarrow> (None, commit c1))"

definition settle :: "error option \<times> conn \<Rightarrow> conn" where
  "settle r = (case r of (None, c) \<Rightarrow> c | (Some e, c) \<Rightarrow> rollback c)"

text \<open>
  The writes of the final flush of \<^verbatim>\<open>fast-import.py\<close> and of
  \<^verbatim>\<open>production-import.py\<close> before their commit, as sequences.
\<close>

definition fast_final_writes :: "rules \<Rightarrow> fstate \<Rightarrow> conn \<Rightarrow> error option \<times> conn" where
  "fast_final_writes R s =
     seq (if teacher_batch s \<noteq> [] then executemany_teachers R (teacher_batch s)
          else (\<lambda>c. (None, c)))
       (seq (if batch_batch s \<noteq> [] then executemany_batches R (batch_batch s)
             else (\<lambda>c. (None, c)))
          (if batch_teacher_batch s \<noteq> [] then executemany_links R (batch_teacher_batch s)
           else (\<lambda>c. (None, c))))"

definition prod_writes :: "rules \<Rightarrow> pstate \<Rightarrow> conn \<Rightarrow> error option \<times> conn" where
  "prod_writes R s =
     seq (if batch_values (batch_data s) \<noteq> []
          then executemany_batches R (batch_values (batch_data s))
          else (\<lambda>c. (None, c)))
       (seq (insert_teacher_slices R (slices batch_size (teacher_records s)))
          (insert_link_slices R (slices batch_size (batch_teacher_records s))))"

text \<open>
  The same writes as lists of calls: the bulk inserts a write phase is about to make,
  what running such a list does (the first exception ends it), which calls raise, and
  which calls of a list are made at all (those up to the first that raises, and that
  one).
\<close>

fun exec_call :: "rules \<Rightarrow> call \<Rightarrow> conn \<Rightarrow> error option \<times> conn" where
  "exec_call R (InsertTeachers chunk) c = executemany_teachers R chunk c"
| "exec_call R (InsertBatches chunk) c = executemany_batches R chunk c"
| "exec_call R (InsertLinks chunk) c = executemany_links R chunk c"
| "exec_call R Commit c = (None, commit c)"
| "exec_call R Rollback c = (None, rollback c)"

fun exec_calls :: "rules \<Rightarrow> call list \<Rightarrow> conn \<Rightarrow> error option \<times> conn" where
  "exec_calls R [] c = (None, c)"
| "exec_calls R (k # ks) c =
     (case exec_call R k c of
        (Some e, c') \<Rightarrow> (Some e, c')
      | (None, c') \<Rightarrow> exec_calls R ks c')"

fun call_bad :: "rules \<Rightarrow> call \<Rightarrow> bool" where
  "call_bad R (InsertTeachers chunk) = chunk_bad (teacher_bad R) chunk"
| "call_bad R (InsertBatches chunk) = chunk_bad (batch_bad R) chunk"
| "call_bad R (InsertLinks chunk) = chunk_bad (link_bad R) chunk"
| "call_bad R Commit = False"
| "call_bad R Rollback = False"

fun attempted :: "rules \<Rightarrow> call list \<Rightarrow> call list" where
  "attempted R [] = []"
| "attempted R (k # ks) = (if call_bad R k then [k] else k # attempted R ks)"

definition final_calls :: "fstate \<Rightarrow> call list" where
  "final_calls s =
     (if teacher_batch s \<noteq> [] then [InsertTeachers (teacher_batch s)] else []) @
     (if batch_batch s \<noteq> [] then [InsertBatches (batch_batch s)] else []) @
     (if batch_teacher_batch s \<noteq> [] then [InsertLinks (batch_teacher_batch s)] else [])"

definition prod_calls :: "pstate \<Rightarrow> call list" where
  "prod_calls s =
     (if batch_values (batch_data s) \<noteq> [] then [InsertBatches (batch_values (batch_data s))]
      else []) @
     map InsertTeachers (slices batch_size (teacher_records s)) @
     map InsertLinks (slices batch_size (batch_teacher_records s))"

subsection \<open>A second run on the store of the first\<close>

text \<open>
  Every key of the first store is a key of the second, table by table.
\<close>

definition below :: "store \<Rightarrow> store \<Rightarrow> bool" where
  "below S G \<longleftrightarrow>
     teacher_key ` set (teachers S) \<subseteq> teacher_key ` set (teachers G) \<and>
     batch_key ` set (batches S) \<subseteq> batch_key ` set (batches G) \<and>
     link_key ` set (batch_teachers S) \<subseteq> link_key ` set (batch_teachers G)"

text \<open>
  The same connection and the same loop state on other tables: \<open>G\<close> replaces both
  the committed tables and those of the open transaction.
\<close>

definition retarget :: "store \<Rightarrow> conn \<Rightarrow> conn" where
  "retarget G c = c\<lparr>committed := G, working := G\<rparr>"

definition retarget_state :: "store \<Rightarrow> fstate \<Rightarrow> fstate" where
  "retarget_state G s = s\<lparr>conn := retarget G (conn s)\<rparr>"

text \<open>
  No transaction is open: the open transaction sees the committed tables.
\<close>

definition clean :: "conn \<Rightarrow> bool" where
  "clean c \<longleftrightarrow> working c = committed c"

text \<open>
  What every write of the scripts has in common: it leaves the committed tables alone,
  it only adds keys to the open transaction, on tables that hold all its keys already it
  changes nothing, and whether it raises and what it logs do not depend on the tables.
\<close>

definition store_op :: "(conn \<Rightarrow> error option \<times> conn) \<Rightarrow> bool" where
  "store_op f \<longleftrightarrow>
     (\<forall>c. committed (snd (f c)) = committed c) \<and>
     (\<forall>c c'. f c = (None, c') \<longrightarrow> below (working c) (working c')) \<and>
     (\<forall>c c' G. f c = (None, c') \<longrightarrow> below (working c') G \<longrightarrow>
        f (retarget G c) = (None, retarget G c')) \<and>
     (\<forall>c d. calls c = calls d \<longrightarrow>
        fst (f c) = fst (f d) \<and> calls (snd (f c)) = calls (snd (f d)))"

text \<open>
  The number of rows of each table.
\<close>

definition row_counts :: "store \<Rightarrow> nat \<times> nat \<times> nat" where
  "row_counts db = (length (teachers db), length (batches db), length (batch_teachers db))"

subsection \<open>Example inputs\<close>

text \<open>
  A store that refuses nothing, one that refuses every batch tuple and one that refuses
  every teacher tuple; an empty store; a header line; a row whose phone number cleans to
  9876543210 and a second row with the same batch and, once cleaned, the same mobile;
  a row of eight fields; and \<open>n\<close> rows with \<open>n\<close> different batch names.
\<close>

definition accept_all :: rules where
  "accept_all = \<lparr>teacher_bad = (\<lambda>t. False), batch_bad = (\<lambda>b. False), link_bad = (\<lambda>l. False)\<rparr>"

definition refuse_batches :: rules where
  "refuse_batches =
     \<lparr>teacher_bad = (\<lambda>t. False), batch_bad = (\<lambda>b. True), link_bad = (\<lambda>l. False)\<rparr>"

definition refuse_teachers :: rules where
  "refuse_teachers =
     \<lparr>teacher_bad = (\<lambda>t. True), batch_bad = (\<lambda>b. False), link_bad = (\<lambda>l. False)\<rparr>"

definition empty_store :: store where
  "empty_store = \<lparr>teachers = [], batches = [], batch_teachers = []\<rparr>"

definition header_row :: row where
  "header_row = [''district'', ''batch_name'', ''service_type'', ''training_group'',
                 ''teacher_id'', ''teacher_name'', ''phone_number'']"

definition alice :: row where
  "alice = [''D1'', ''B1'', ''Primary'', ''G1'', ''T1'', ''Alice'', ''(98) 765-43210x9'']"

definition bob :: row where
  "bob = [''D2'', ''B1'', '''', ''G2'', ''null'', ''Bob'', ''98765 43210'']"

definition eight_fields :: row where
  "eight_fields = [''D1'', ''B1'', ''Primary'', ''G1'', ''T2'', ''Bob'', ''9876500000'', ''extra'']"

definition numbered_rows :: "nat \<Rightarrow> row list" where
  "numbered_rows n =
     map (\<lambda>i. [''D1'', ''B'' @ replicate i (CHR ''x''), ''Primary'', ''G1'', ''T1'', ''Alice'',
                ''9876543210'']) [0..<n]"

section \<open>Field cleaning and the row checks\<close>

lemma fast_clean_phone_None:
  "fast_clean_phone raw = None \<longleftrightarrow> raw = ''null'' \<or> length (filter ascii_digit raw) < 10"
  by (auto simp: fast_clean_phone_def Let_def)

lemma fast_clean_phone_Some:
  "fast_clean_phone raw = Some m \<Longrightarrow>
     m = take 10 (filter ascii_digit raw) \<and> length m = 10 \<and> (\<forall>c\<in>set m. ascii_digit c)"
  by (auto simp: fast_clean_phone_def Let_def split: if_splits dest: in_set_takeD)

lemma clean_phone_number_None:
  "clean_phone_number isdigit raw = None \<longleftrightarrow> raw = ''null'' \<or> length (filter isdigit raw) < 10"
proof -
  have "length (filter isdigit ''null'') < 10"
    by (rule le_less_trans [OF length_filter_le]) simp
  then show ?thesis
    by (auto simp: clean_phone_number_def Let_def)
qed

lemma clean_phone_number_Some:
  "clean_phone_number isdigit raw = Some m \<Longrightarrow>
     m = take 10 (filter isdigit raw) \<and> length m = 10 \<and> (\<forall>c\<in>set m. isdigit c)"
  by (auto simp: clean_phone_number_def Let_def split: if_splits dest: in_set_takeD)

lemma fast_row_short: "length row < 7 \<Longrightarrow> fast_row R row s = (None, s)"
  by (simp add: fast_row_def)

lemma fast_row_seven:
  "fast_row R [district, batch_name, service_type, training_group, teacher_id, teacher_name,
               phone_number] s =
     (case fast_clean_phone phone_number of
        None \<Rightarrow> (None, s)
      | Some mobile \<Rightarrow>
          (None, fast_flush R (fast_queue district batch_name service_type training_group
             teacher_id teacher_name mobile s)))"
  by (simp add: fast_row_def)

lemma long_row:
  assumes "length (row :: 'a list) > 7"
  obtains a b c d e f g h rest where "row = a # b # c # d # e # f # g # h # rest"
proof -
  from assms obtain a r1 where 1: "row = a # r1" "length r1 > 6" by (cases row) auto
  then obtain b r2 where 2: "r1 = b # r2" "length r2 > 5" by (cases r1) auto
  then obtain c r3 where 3: "r2 = c # r3" "length r3 > 4" by (cases r2) auto
  then obtain d r4 where 4: "r3 = d # r4" "length r4 > 3" by (cases r3) auto
  then obtain e r5 where 5: "r4 = e # r5" "length r5 > 2" by (cases r4) auto
  then obtain f r6 where 6: "r5 = f # r6" "length r6 > 1" by (cases r5) auto
  then obtain g r7 where 7: "r6 = g # r7" "length r7 > 0" by (cases r6) auto
  then obtain h r8 where 8: "r7 = h # r8" by (cases r7) auto
  show ?thesis using that 1 2 3 4 5 6 7 8 by simp
qed

lemma fast_row_long: "length row > 7 \<Longrightarrow> fast_row R row s = (Some ValueError, s)"
  by (erule long_row) (simp add: fast_row_def)

lemma prod_row_short: "length row < 7 \<Longrightarrow> prod_row isdigit row s = (None, s)"
  by (simp add: prod_row_def)

lemma prod_row_long: "length row > 7 \<Longrightarrow> prod_row isdigit row s = (Some ValueError, s)"
  by (erule long_row) (simp add: prod_row_def)

lemma prod_row_seven:
  "prod_row isdigit [district, batch_name, service_type, training_group, teacher_id,
                     teacher_name, phone_number] s =
     (case clean_phone_number isdigit phone_number of
        None \<Rightarrow> (None, s)
      | Some mobile \<Rightarrow>
          (None, prod_queue district batch_name service_type training_group
             teacher_id teacher_name mobile s))"
  by (auto simp: prod_row_def split: option.splits dest: clean_phone_number_Some)

text \<open>
  C2. Both scripts clean a phone number in the same way: the characters that are not
  digits are dropped (in \<^verbatim>\<open>fast-import.py\<close> a digit is one of 0 to 9, in
  \<^verbatim>\<open>production-import.py\<close> what \<^verbatim>\<open>str.isdigit\<close> accepts); the value is refused
  exactly when it is the literal \<^verbatim>\<open>null\<close> or fewer than 10 digits remain; otherwise
  the result is the first 10 of the remaining digits, so it has 10 characters, all
  digits. The value \<^verbatim>\<open>12345\<close> is refused, and a row with that phone number leaves
  the state of either loop as it was: nothing is queued for it.
\<close>

theorem phone_normalization:
  "(fast_clean_phone raw = None \<longleftrightarrow> raw = ''null'' \<or> length (filter ascii_digit raw) < 10)
   \<and> (clean_phone_number isdigit raw = None \<longleftrightarrow>
        raw = ''null'' \<or> length (filter isdigit raw) < 10)
   \<and> (\<forall>m. fast_clean_phone raw = Some m \<longrightarrow>
          m = take 10 (filter ascii_digit raw) \<and> length m = 10 \<and> (\<forall>c\<in>set m. ascii_digit c))
   \<and> (\<forall>m. clean_phone_number isdigit raw = Some m \<longrightarrow>
          m = take 10 (filter isdigit raw) \<and> length m = 10 \<and> (\<forall>c\<in>set m. isdigit c))
   \<and> fast_clean_phone ''12345'' = None
   \<and> clean_phone_number isdigit ''12345'' = None
   \<and> fast_row R [district, batch_name, service_type, training_group, teacher_id,
                  teacher_name, ''12345''] s = (None, s)
   \<and> prod_row isdigit [district, batch_name, service_type, training_group, teacher_id,
                        teacher_name, ''12345''] ps = (None, ps)"
proof -
  have short: "length (filter p ''12345'') < 10" for p :: "char \<Rightarrow> bool"
    by (rule le_less_trans [OF length_filter_le]) simp
  have f: "fast_clean_phone ''12345'' = None"
    unfolding fast_clean_phone_None using short [of ascii_digit] by (rule disjI2)
  have p: "clean_phone_number isdigit ''12345'' = None"
    unfolding clean_phone_number_None using short [of isdigit] by (rule disjI2)
  have fr: "fast_row R [district, batch_name, service_type, training_group, teacher_id,
                  teacher_name, ''12345''] s = (None, s)"
    by (simp only: fast_row_seven f option.case)
  have pr: "prod_row isdigit [district, batch_name, service_type, training_group, teacher_id,
                        teacher_name, ''12345''] ps = (None, ps)"
    by (simp only: prod_row_seven p option.case)
  have fs: "\<forall>m. fast_clean_phone raw = Some m \<longrightarrow>
          m = take 10 (filter ascii_digit raw) \<and> length m = 10 \<and> (\<forall>c\<in>set m. ascii_digit c)"
    using fast_clean_phone_Some [of raw] by blast
  have ps: "\<forall>m. clean_phone_number isdigit raw = Some m \<longrightarrow>
          m = take 10 (filter isdigit raw) \<and> length m = 10 \<and> (\<forall>c\<in>set m. isdigit c)"
    using clean_phone_number_Some [of isdigit raw] by blast
  from fast_clean_phone_None [of raw] clean_phone_number_None [of isdigit raw] fs ps f p fr pr
  show ?thesis by (intro conjI)
qed

theorem phone_normalization_witness:
  "fast_clean_phone ''(98) 765-43210x9'' = Some ''9876543210''
   \<and> clean_phone_number ascii_digit ''(98) 765-43210x9'' = Some ''9876543210''"
proof -
  note t = phone_normalization [of "''(98) 765-43210x9''" ascii_digit]
  have d: "filter ascii_digit ''(98) 765-43210x9'' = ''98765432109''"
    by (simp add: ascii_digit_def)
  have a: "fast_clean_phone ''(98) 765-43210x9'' \<noteq> None"
    by (simp only: t [THEN conjunct1] d) simp
  have b: "clean_phone_number ascii_digit ''(98) 765-43210x9'' \<noteq> None"
    by (simp only: t [THEN conjunct2, THEN conjunct1] d) simp
  from a obtain m where m: "fast_clean_phone ''(98) 765-43210x9'' = Some m"
    by blast
  from b obtain m' where m': "clean_phone_number ascii_digit ''(98) 765-43210x9'' = Some m'"
    by blast
  from t [THEN conjunct2, THEN conjunct2, THEN conjunct1] m
  have "m = take 10 (filter ascii_digit ''(98) 765-43210x9'')"
    by blast
  then have 1: "m = ''9876543210''"
    by (simp only: d) simp
  from t [THEN conjunct2, THEN conjunct2, THEN conjunct2, THEN conjunct1] m'
  have "m' = take 10 (filter ascii_digit ''(98) 765-43210x9'')"
    by blast
  then have 2: "m' = ''9876543210''"
    by (simp only: d) simp
  from m m' 1 2 show ?thesis by simp
qed

section \<open>The store: keys, absorbed chunks, and what a call logs\<close>

lemma insert_many_fst:
  "fst (insert_many key bad chunk tbl) = (if \<exists>r\<in>set chunk. bad r then Some DataError else None)"
  by (induction chunk arbitrary: tbl) auto

lemma insert_many_absorb:
  "\<forall>r\<in>set chunk. \<not> bad r \<Longrightarrow> key ` set chunk \<subseteq> key ` set tbl \<Longrightarrow>
     insert_many key bad chunk tbl = (None, tbl)"
  by (induction chunk arbitrary: tbl) (auto simp: insert_skip_def)

lemma insert_skip_keys: "key ` set (insert_skip key r tbl) = insert (key r) (key ` set tbl)"
  by (auto simp: insert_skip_def)

lemma insert_many_keys:
  "insert_many key bad chunk tbl = (None, tbl') \<Longrightarrow>
     key ` set tbl' = key ` set tbl \<union> key ` set chunk"
proof (induction chunk arbitrary: tbl)
  case Nil
  then show ?case by simp
next
  case (Cons r rs)
  from Cons.prems have nb: "\<not> bad r"
    and rest: "insert_many key bad rs (insert_skip key r tbl) = (None, tbl')"
    by (auto split: if_splits)
  from Cons.IH [OF rest] show ?case
    by (auto simp: insert_skip_keys)
qed

lemma insert_skip_distinct:
  "distinct (map key tbl) \<Longrightarrow> distinct (map key (insert_skip key r tbl))"
  by (auto simp: insert_skip_def)

lemma insert_many_distinct:
  "distinct (map key tbl) \<Longrightarrow> distinct (map key (snd (insert_many key bad chunk tbl)))"
  by (induction chunk arbitrary: tbl) (auto simp: insert_skip_distinct)

lemma below_refl: "below S S"
  by (simp add: below_def)

lemma below_trans: "below A B \<Longrightarrow> below B C \<Longrightarrow> below A C"
  unfolding below_def by (elim conjE, intro conjI) (erule (1) subset_trans)+

lemma executemany_teachers_eq:
  "executemany_teachers R chunk c =
     (fst (insert_many teacher_key (teacher_bad R) chunk (teachers (working c))),
      c\<lparr>working := (working c)\<lparr>teachers :=
             snd (insert_many teacher_key (teacher_bad R) chunk (teachers (working c)))\<rparr>,
        calls := calls c @ [InsertTeachers chunk]\<rparr>)"
  by (simp add: executemany_teachers_def case_prod_unfold)

lemma executemany_teachers_fst:
  "fst (executemany_teachers R chunk c) =
     (if chunk_bad (teacher_bad R) chunk then Some DataError else None)"
  by (simp only: executemany_teachers_eq fst_conv insert_many_fst chunk_bad_def)

lemma executemany_teachers_calls:
  "calls (snd (executemany_teachers R chunk c)) = calls c @ [InsertTeachers chunk]"
  by (simp add: executemany_teachers_eq)

lemma executemany_teachers_committed:
  "committed (snd (executemany_teachers R chunk c)) = committed c"
  by (simp add: executemany_teachers_eq)

lemma executemany_teachers_below:
  assumes "executemany_teachers R chunk c = (None, c')"
  shows "below (working c) (working c')"
    and "teacher_key ` set chunk \<subseteq> teacher_key ` set (teachers (working c'))"
proof -
  obtain e tbl where
    t: "insert_many teacher_key (teacher_bad R) chunk (teachers (working c)) = (e, tbl)"
    by (cases "insert_many teacher_key (teacher_bad R) chunk (teachers (working c))")
  from assms have "fst (executemany_teachers R chunk c) = None"
    and "snd (executemany_teachers R chunk c) = c'"
    by simp_all
  then have e: "e = None"
    and c': "c' = c\<lparr>working := (working c)\<lparr>teachers := tbl\<rparr>,
                     calls := calls c @ [InsertTeachers chunk]\<rparr>"
    by (simp_all add: executemany_teachers_eq t)
  from insert_many_keys [OF t [unfolded e]]
  have k: "teacher_key ` set tbl =
             teacher_key ` set (teachers (working c)) \<union> teacher_key ` set chunk" .
  show "below (working c) (working c')"
    by (simp add: below_def c' k)
  show "teacher_key ` set chunk \<subseteq> teacher_key ` set (teachers (working c'))"
    by (simp add: c' k)
qed

lemma executemany_teachers_retarget:
  assumes "executemany_teachers R chunk c = (None, c')" and "below (working c') G"
  shows "executemany_teachers R chunk (retarget G c) = (None, retarget G c')"
proof -
  from assms(1) have "\<not> chunk_bad (teacher_bad R) chunk"
    using executemany_teachers_fst [of R chunk c] by (simp split: if_splits)
  then have nb: "\<forall>r\<in>set chunk. \<not> teacher_bad R r"
    by (simp add: chunk_bad_def)
  from executemany_teachers_below(2) [OF assms(1)] assms(2)
  have "teacher_key ` set chunk \<subseteq> teacher_key ` set (teachers G)"
    unfolding below_def by (elim conjE) (erule (1) subset_trans)
  from insert_many_absorb [OF nb this]
  have i: "insert_many teacher_key (teacher_bad R) chunk (teachers G) = (None, teachers G)" .
  from assms(1) have "snd (executemany_teachers R chunk c) = c'"
    by simp
  then have c': "c' = c\<lparr>working := (working c)\<lparr>teachers :=
             snd (insert_many teacher_key (teacher_bad R) chunk (teachers (working c)))\<rparr>,
        calls := calls c @ [InsertTeachers chunk]\<rparr>"
    by (simp add: executemany_teachers_eq)
  show ?thesis
    unfolding c' by (simp add: executemany_teachers_eq retarget_def i)
qed

lemma executemany_batches_eq:
  "executemany_batches R chunk c =
     (fst (insert_many batch_key (batch_bad R) chunk (batches (working c))),
      c\<lparr>working := (working c)\<lparr>batches :=
             snd (insert_many batch_key (batch_bad R) chunk (batches (working c)))\<rparr>,
        calls := calls c @ [InsertBatches chunk]\<rparr>)"
  by (simp add: executemany_batches_def case_prod_unfold)

lemma executemany_batches_fst:
  "fst (executemany_batches R chunk c) =
     (if chunk_bad (batch_bad R) chunk then Some DataError else None)"
  by (simp only: executemany_batches_eq fst_conv insert_many_fst chunk_bad_def)

lemma executemany_batches_calls:
  "calls (snd (executemany_batches R chunk c)) = calls c @ [InsertBatches chunk]"
  by (simp add: executemany_batches_eq)

lemma executemany_batches_committed:
  "committed (snd (executemany_batches R chunk c)) = committed c"
  by (simp add: executemany_batches_eq)

lemma executemany_batches_below:
  assumes "executemany_batches R chunk c = (None, c')"
  shows "below (working c) (working c')"
    and "batch_key ` set chunk \<subseteq> batch_key ` set (batches (working c'))"
proof -
  obtain e tbl where
    t: "insert_many batch_key (batch_bad R) chunk (batches (working c)) = (e, tbl)"
    by (cases "insert_many batch_key (batch_bad R) chunk (batches (working c))")
  from assms have "fst (executemany_batches R chunk c) = None"
    and "snd (executemany_batches R chunk c) = c'"
    by simp_all
  then have e: "e = None"
    and c': "c' = c\<lparr>working := (working c)\<lparr>batches := tbl\<rparr>,
                     calls := calls c @ [InsertBatches chunk]\<rparr>"
    by (simp_all add: executemany_batches_eq t)
  from insert_many_keys [OF t [unfolded e]]
  have k: "batch_key ` set tbl =
             batch_key ` set (batches (working c)) \<union> batch_key ` set chunk" .
  show "below (working c) (working c')"
    by (simp add: below_def c' k)
  show "batch_key ` set chunk \<subseteq> batch_key ` set (batches (working c'))"
    by (simp add: c' k)
qed

lemma executemany_batches_retarget:
  assumes "executemany_batches R chunk c = (None, c')" and "below (working c') G"
  shows "executemany_batches R chunk (retarget G c) = (None, retarget G c')"
proof -
  from assms(1) have "\<not> chunk_bad (batch_bad R) chunk"
    using executemany_batches_fst [of R chunk c] by (simp split: if_splits)
  then have nb: "\<forall>r\<in>set chunk. \<not> batch_bad R r"
    by (simp add: chunk_bad_def)
  from executemany_batches_below(2) [OF assms(1)] assms(2)
  have "batch_key ` set chunk \<subseteq> batch_key ` set (batches G)"
    unfolding below_def by (elim conjE) (erule (1) subset_trans)
  from insert_many_absorb [OF nb this]
  have i: "insert_many batch_key (batch_bad R) chunk (batches G) = (None, batches G)" .
  from assms(1) have "snd (executemany_batches R chunk c) = c'"
    by simp
  then have c': "c' = c\<lparr>working := (working c)\<lparr>batches :=
             snd (insert_many batch_key (batch_bad R) chunk (batches (working c)))\<rparr>,
        calls := calls c @ [InsertBatches chunk]\<rparr>"
    by (simp add: executemany_batches_eq)
  show ?thesis
    unfolding c' by (simp add: executemany_batches_eq retarget_def i)
qed

lemma executemany_links_eq:
  "executemany_links R chunk c =
     (fst (insert_many link_key (link_bad R) chunk (batch_teachers (working c))),
      c\<lparr>working := (working c)\<lparr>batch_teachers :=
             snd (insert_many link_key (link_bad R) chunk (batch_teachers (working c)))\<rparr>,
        calls := calls c @ [InsertLinks chunk]\<rparr>)"
  by (simp add: executemany_links_def case_prod_unfold)

lemma executemany_links_fst:
  "fst (executemany_links R chunk c) =
     (if chunk_bad (link_bad R) chunk then Some DataError else None)"
  by (simp only: executemany_links_eq fst_conv insert_many_fst chunk_bad_def)

lemma executemany_links_calls:
  "calls (snd (executemany_links R chunk c)) = calls c @ [InsertLinks chunk]"
  by (simp add: executemany_links_eq)

lemma executemany_links_committed:
  "committed (snd (executemany_links R chunk c)) = committed c"
  by (simp add: executemany_links_eq)

lemma executemany_links_below:
  assumes "executemany_links R chunk c = (None, c')"
  shows "below (working c) (working c')"
    and "link_key ` set chunk \<subseteq> link_key ` set (batch_teachers (working c'))"
proof -
  obtain e tbl where
    t: "insert_many link_key (link_bad R) chunk (batch_teachers (working c)) = (e, tbl)"
    by (cases "insert_many link_key (link_bad R) chunk (batch_teachers (working c))")
  from assms have "fst (executemany_links R chunk c) = None"
    and "snd (executemany_links R chunk c) = c'"
    by simp_all
  then have e: "e = None"
    and c': "c' = c\<lparr>working := (working c)\<lparr>batch_teachers := tbl\<rparr>,
                     calls := calls c @ [InsertLinks chunk]\<rparr>"
    by (simp_all add: executemany_links_eq t)
  from insert_many_keys [OF t [unfolded e]]
  have k: "link_key ` set tbl =
             link_key ` set (batch_teachers (working c)) \<union> link_key ` set chunk" .
  show "below (working c) (working c')"
    by (simp add: below_def c' k)
  show "link_key ` set chunk \<subseteq> link_key ` set (batch_teachers (working c'))"
    by (simp add: c' k)
qed

lemma executemany_links_retarget:
  assumes "executemany_links R chunk c = (None, c')" and "below (working c') G"
  shows "executemany_links R chunk (retarget G c) = (None, retarget G c')"
proof -
  from assms(1) have "\<not> chunk_bad (link_bad R) chunk"
    using executemany_links_fst [of R chunk c] by (simp split: if_splits)
  then have nb: "\<forall>r\<in>set chunk. \<not> link_bad R r"
    by (simp add: chunk_bad_def)
  from executemany_links_below(2) [OF assms(1)] assms(2)
  have "link_key ` set chunk \<subseteq> link_key ` set (batch_teachers G)"
    unfolding below_def by (elim conjE) (erule (1) subset_trans)
  from insert_many_absorb [OF nb this]
  have i: "insert_many link_key (link_bad R) chunk (batch_teachers G) = (None, batch_teachers G)" .
  from assms(1) have "snd (executemany_links R chunk c) = c'"
    by simp
  then have c': "c' = c\<lparr>working := (working c)\<lparr>batch_teachers :=
             snd (insert_many link_key (link_bad R) chunk (batch_teachers (working c)))\<rparr>,
        calls := calls c @ [InsertLinks chunk]\<rparr>"
    by (simp add: executemany_links_eq)
  show ?thesis
    unfolding c' by (simp add: executemany_links_eq retarget_def i)
qed

section \<open>The flushes inside the loop of \<^verbatim>\<open>fast-import.py\<close>\<close>

lemma commit_retarget: "commit (retarget G c) = retarget G (commit c)"
  by (simp add: commit_def retarget_def)

lemma rollback_retarget: "rollback (retarget G c) = retarget G (rollback c)"
  by (simp add: rollback_def retarget_def)

lemma clean_commit: "clean (commit c)"
  by (simp add: clean_def commit_def)

lemma clean_rollback: "clean (rollback c)"
  by (simp add: clean_def rollback_def)

lemma flush_teachers_eq:
  "flush_teachers R s =
     (if length (teacher_batch s) \<ge> batch_size then
        s\<lparr>conn := (if chunk_bad (teacher_bad R) (teacher_batch s) then rollback else commit)
                     (snd (executemany_teachers R (teacher_batch s) (conn s))),
           teacher_batch := []\<rparr>
      else s)"
proof -
  obtain e c where ec: "executemany_teachers R (teacher_batch s) (conn s) = (e, c)"
    by (cases "executemany_teachers R (teacher_batch s) (conn s)")
  with executemany_teachers_fst [of R "teacher_batch s" "conn s"]
  have "e = (if chunk_bad (teacher_bad R) (teacher_batch s) then Some DataError else None)"
    by simp
  with ec show ?thesis
    by (simp add: flush_teachers_def)
qed

lemma rollback_executemany_teachers_retarget:
  "rollback (snd (executemany_teachers R chunk (retarget G c))) =
     retarget G (rollback (snd (executemany_teachers R chunk c)))"
  by (simp add: executemany_teachers_eq rollback_def retarget_def)

lemma flush_teachers_clean: "clean (conn s) \<Longrightarrow> clean (conn (flush_teachers R s))"
  by (simp add: flush_teachers_eq clean_commit clean_rollback)

lemma flush_teachers_mono:
  assumes "clean (conn s)"
  shows "below (committed (conn s)) (committed (conn (flush_teachers R s)))"
proof (cases "length (teacher_batch s) \<ge> batch_size \<and> \<not> chunk_bad (teacher_bad R) (teacher_batch s)")
  case True
  obtain e c where ec: "executemany_teachers R (teacher_batch s) (conn s) = (e, c)"
    by (cases "executemany_teachers R (teacher_batch s) (conn s)")
  with True executemany_teachers_fst [of R "teacher_batch s" "conn s"]
  have e: "e = None" by simp
  from executemany_teachers_below(1) [OF ec [unfolded e]] assms
  have "below (committed (conn s)) (working c)"
    by (simp add: clean_def)
  with True ec show ?thesis
    by (simp add: flush_teachers_eq commit_def)
next
  case False
  then show ?thesis
    by (auto simp: flush_teachers_eq rollback_def executemany_teachers_committed below_refl)
qed

lemma flush_teachers_retarget:
  assumes "clean (conn s)" and "below (committed (conn (flush_teachers R s))) G"
  shows "flush_teachers R (retarget_state G s) = retarget_state G (flush_teachers R s)"
proof (cases "length (teacher_batch s) \<ge> batch_size")
  case False
  then show ?thesis
    by (simp add: flush_teachers_eq retarget_state_def)
next
  case True
  show ?thesis
  proof (cases "chunk_bad (teacher_bad R) (teacher_batch s)")
    case bad: True
    with True show ?thesis
      by (simp add: flush_teachers_eq retarget_state_def rollback_executemany_teachers_retarget)
  next
    case ok: False
    obtain e c where ec: "executemany_teachers R (teacher_batch s) (conn s) = (e, c)"
      by (cases "executemany_teachers R (teacher_batch s) (conn s)")
    with ok executemany_teachers_fst [of R "teacher_batch s" "conn s"]
    have e: "e = None" by simp
    from True ok ec assms(2) have "below (working c) G"
      by (simp add: flush_teachers_eq commit_def)
    from executemany_teachers_retarget [OF ec [unfolded e] this] True ok ec
    show ?thesis
      by (simp add: flush_teachers_eq retarget_state_def commit_retarget)
  qed
qed

lemmas chunks_defs = teacher_chunks_def batch_chunks_def link_chunks_def
lemmas queued_defs = queued_teachers_def queued_batches_def queued_links_def

lemma flush_batches_eq:
  "flush_batches R s =
     (if length (batch_batch s) \<ge> 50 then
        s\<lparr>conn := (if chunk_bad (batch_bad R) (batch_batch s) then rollback else commit)
                     (snd (executemany_batches R (batch_batch s) (conn s))),
           batch_batch := []\<rparr>
      else s)"
proof -
  obtain e c where ec: "executemany_batches R (batch_batch s) (conn s) = (e, c)"
    by (cases "executemany_batches R (batch_batch s) (conn s)")
  with executemany_batches_fst [of R "batch_batch s" "conn s"]
  have "e = (if chunk_bad (batch_bad R) (batch_batch s) then Some DataError else None)"
    by simp
  with ec show ?thesis
    by (simp add: flush_batches_def)
qed

lemma flush_links_eq:
  "flush_links R s =
     (if length (batch_teacher_batch s) \<ge> batch_size then
        s\<lparr>conn := (if chunk_bad (link_bad R) (batch_teacher_batch s) then rollback else commit)
                     (snd (executemany_links R (batch_teacher_batch s) (conn s))),
           batch_teacher_batch := []\<rparr>
      else s)"
proof -
  obtain e c where ec: "executemany_links R (batch_teacher_batch s) (conn s) = (e, c)"
    by (cases "executemany_links R (batch_teacher_batch s) (conn s)")
  with executemany_links_fst [of R "batch_teacher_batch s" "conn s"]
  have "e = (if chunk_bad (link_bad R) (batch_teacher_batch s) then Some DataError else None)"
    by simp
  with ec show ?thesis
    by (simp add: flush_links_def)
qed

lemmas flush_eqs = flush_teachers_eq flush_batches_eq flush_links_eq
lemmas executemany_calls =
  executemany_teachers_calls executemany_batches_calls executemany_links_calls

lemma calls_commit: "calls (commit c) = calls c @ [Commit]"
  by (simp add: commit_def)

lemma calls_rollback: "calls (rollback c) = calls c @ [Rollback]"
  by (simp add: rollback_def)

lemma fast_flush_queued:
  "queued_teachers (fast_flush R s) = queued_teachers s"
  "queued_batches (fast_flush R s) = queued_batches s"
  "queued_links (fast_flush R s) = queued_links s"
  by (simp_all add: fast_flush_def flush_eqs queued_defs chunks_defs executemany_calls
      calls_commit calls_rollback)

lemma fast_flush_frame:
  "unique_batches (fast_flush R s) = unique_batches s"
  "count (fast_flush R s) = count s"
  by (simp_all add: fast_flush_def flush_eqs)

lemma fast_queue_queued:
  "queued_teachers (fast_queue d b st tg tid tn m s) =
     queued_teachers s @ [(clean_teacher_id tid, tn, m, d, or_primary st, or_primary tg)]"
  "queued_links (fast_queue d b st tg tid tn m s) =
     queued_links s @ (if has_batch b then [(b, m, tn, d)] else [])"
  "queued_batches (fast_queue d b st tg tid tn m s) =
     queued_batches s @ (if has_batch b \<and> b \<notin> unique_batches s
        then [(b, d, ''Production Import'', or_primary st, or_primary tg)] else [])"
  "unique_batches (fast_queue d b st tg tid tn m s) =
     (if has_batch b then insert b (unique_batches s) else unique_batches s)"
  by (auto simp: fast_queue_def queued_defs Let_def)

lemma rollback_executemany_batches_retarget:
  "rollback (snd (executemany_batches R chunk (retarget G c))) =
     retarget G (rollback (snd (executemany_batches R chunk c)))"
  by (simp add: executemany_batches_eq rollback_def retarget_def)

lemma flush_batches_clean: "clean (conn s) \<Longrightarrow> clean (conn (flush_batches R s))"
  by (simp add: flush_batches_eq clean_commit clean_rollback)

lemma flush_batches_mono:
  assumes "clean (conn s)"
  shows "below (committed (conn s)) (committed (conn (flush_batches R s)))"
proof (cases "length (batch_batch s) \<ge> 50 \<and> \<not> chunk_bad (batch_bad R) (batch_batch s)")
  case True
  obtain e c where ec: "executemany_batches R (batch_batch s) (conn s) = (e, c)"
    by (cases "executemany_batches R (batch_batch s) (conn s)")
  with True executemany_batches_fst [of R "batch_batch s" "conn s"]
  have e: "e = None" by simp
  from executemany_batches_below(1) [OF ec [unfolded e]] assms
  have "below (committed (conn s)) (working c)"
    by (simp add: clean_def)
  with True ec show ?thesis
    by (simp add: flush_batches_eq commit_def)
next
  case False
  then show ?thesis
    by (auto simp: flush_batches_eq rollback_def executemany_batches_committed below_refl)
qed

lemma flush_batches_retarget:
  assumes "clean (conn s)" and "below (committed (conn (flush_batches R s))) G"
  shows "flush_batches R (retarget_state G s) = retarget_state G (flush_batches R s)"
proof (cases "length (batch_batch s) \<ge> 50")
  case False
  then show ?thesis
    by (simp add: flush_batches_eq retarget_state_def)
next
  case True
  show ?thesis
  proof (cases "chunk_bad (batch_bad R) (batch_batch s)")
    case bad: True
    with True show ?thesis
      by (simp add: flush_batches_eq retarget_state_def rollback_executemany_batches_retarget)
  next
    case ok: False
    obtain e c where ec: "executemany_batches R (batch_batch s) (conn s) = (e, c)"
      by (cases "executemany_batches R (batch_batch s) (conn s)")
    with ok executemany_batches_fst [of R "batch_batch s" "conn s"]
    have e: "e = None" by simp
    from True ok ec assms(2) have "below (working c) G"
      by (simp add: flush_batches_eq commit_def)
    from executemany_batches_retarget [OF ec [unfolded e] this] True ok ec
    show ?thesis
      by (simp add: flush_batches_eq retarget_state_def commit_retarget)
  qed
qed

lemma rollback_executemany_links_retarget:
  "rollback (snd (executemany_links R chunk (retarget G c))) =
     retarget G (rollback (snd (executemany_links R chunk c)))"
  by (simp add: executemany_links_eq rollback_def retarget_def)

lemma flush_links_clean: "clean (conn s) \<Longrightarrow> clean (conn (flush_links R s))"
  by (simp add: flush_links_eq clean_commit clean_rollback)

lemma flush_links_mono:
  assumes "clean (conn s)"
  shows "below (committed (conn s)) (committed (conn (flush_links R s)))"
proof (cases "length (batch_teacher_batch s) \<ge> batch_size \<and> \<not> chunk_bad (link_bad R) (batch_teacher_batch s)")
  case True
  obtain e c where ec: "executemany_links R (batch_teacher_batch s) (conn s) = (e, c)"
    by (cases "executemany_links R (batch_teacher_batch s) (conn s)")
  with True executemany_links_fst [of R "batch_teacher_batch s" "conn s"]
  have e: "e = None" by simp
  from executemany_links_below(1) [OF ec [unfolded e]] assms
  have "below (committed (conn s)) (working c)"
    by (simp add: clean_def)
  with True ec show ?thesis
    by (simp add: flush_links_eq commit_def)
next
  case False
  then show ?thesis
    by (auto simp: flush_links_eq rollback_def executemany_links_committed below_refl)
qed

lemma flush_links_retarget:
  assumes "clean (conn s)" and "below (committed (conn (flush_links R s))) G"
  shows "flush_links R (retarget_state G s) = retarget_state G (flush_links R s)"
proof (cases "length (batch_teacher_batch s) \<ge> batch_size")
  case False
  then show ?thesis
    by (simp add: flush_links_eq retarget_state_def)
next
  case True
  show ?thesis
  proof (cases "chunk_bad (link_bad R) (batch_teacher_batch s)")
    case bad: True
    with True show ?thesis
      by (simp add: flush_links_eq retarget_state_def rollback_executemany_links_retarget)
  next
    case ok: False
    obtain e c where ec: "executemany_links R (batch_teacher_batch s) (conn s) = (e, c)"
      by (cases "executemany_links R (batch_teacher_batch s) (conn s)")
    with ok executemany_links_fst [of R "batch_teacher_batch s" "conn s"]
    have e: "e = None" by simp
    from True ok ec assms(2) have "below (working c) G"
      by (simp add: flush_links_eq commit_def)
    from executemany_links_retarget [OF ec [unfolded e] this] True ok ec
    show ?thesis
      by (simp add: flush_links_eq retarget_state_def commit_retarget)
  qed
qed

lemma fast_flush_clean: "clean (conn s) \<Longrightarrow> clean (conn (fast_flush R s))"
  unfolding fast_flush_def
  by (intro flush_links_clean flush_batches_clean flush_teachers_clean)

lemma fast_flush_mono:
  assumes "clean (conn s)"
  shows "below (committed (conn s)) (committed (conn (fast_flush R s)))"
proof -
  note c1 = flush_teachers_clean [OF assms, of R]
  note c2 = flush_batches_clean [OF c1, of R]
  from flush_teachers_mono [OF assms, of R] flush_batches_mono [OF c1, of R]
    flush_links_mono [OF c2, of R]
  show ?thesis
    unfolding fast_flush_def by (blast intro: below_trans)
qed

lemma fast_flush_retarget:
  assumes "clean (conn s)" and "below (committed (conn (fast_flush R s))) G"
  shows "fast_flush R (retarget_state G s) = retarget_state G (fast_flush R s)"
proof -
  note c1 = flush_teachers_clean [OF assms(1), of R]
  note c2 = flush_batches_clean [OF c1, of R]
  from assms(2) have b3: "below (committed (conn (flush_links R (flush_batches R (flush_teachers R s))))) G"
    by (simp add: fast_flush_def)
  from flush_links_mono [OF c2, of R] b3
  have b2: "below (committed (conn (flush_batches R (flush_teachers R s)))) G"
    by (rule below_trans)
  from flush_batches_mono [OF c1, of R] b2
  have b1: "below (committed (conn (flush_teachers R s))) G"
    by (rule below_trans)
  show ?thesis
    unfolding fast_flush_def
    by (simp only: flush_teachers_retarget [OF assms(1) b1] flush_batches_retarget [OF c1 b2]
        flush_links_retarget [OF c2 b3])
qed

section \<open>The rows a loop accepts\<close>

lemma seven_row:
  assumes "length (row :: 'a list) = 7"
  obtains a b c d e f g where "row = [a, b, c, d, e, f, g]"
proof -
  from assms obtain a r1 where 1: "row = a # r1" "length r1 = 6" by (cases row) auto
  then obtain b r2 where 2: "r1 = b # r2" "length r2 = 5" by (cases r1) auto
  then obtain c r3 where 3: "r2 = c # r3" "length r3 = 4" by (cases r2) auto
  then obtain d r4 where 4: "r3 = d # r4" "length r4 = 3" by (cases r3) auto
  then obtain e r5 where 5: "r4 = e # r5" "length r5 = 2" by (cases r4) auto
  then obtain f r6 where 6: "r5 = f # r6" "length r6 = 1" by (cases r5) auto
  then obtain g where 7: "r6 = [g]" by (cases r6) auto
  show ?thesis using that 1 2 3 4 5 6 7 by simp
qed

lemma fast_row_exact:
  assumes "length row = 7"
  shows "fast_row R row s =
     (case fast_clean_phone (row ! 6) of
        None \<Rightarrow> (None, s)
      | Some mobile \<Rightarrow>
          (None, fast_flush R (fast_queue (row ! 0) (row ! 1) (row ! 2) (row ! 3) (row ! 4)
             (row ! 5) mobile s)))"
proof -
  from assms obtain a b c d e f g where row: "row = [a, b, c, d, e, f, g]"
    by (rule seven_row)
  show ?thesis
    unfolding row by (simp add: fast_row_seven split: option.split)
qed

lemma prod_row_exact:
  assumes "length row = 7"
  shows "prod_row isdigit row s =
     (case clean_phone_number isdigit (row ! 6) of
        None \<Rightarrow> (None, s)
      | Some mobile \<Rightarrow>
          (None, prod_queue (row ! 0) (row ! 1) (row ! 2) (row ! 3) (row ! 4)
             (row ! 5) mobile s))"
proof -
  from assms obtain a b c d e f g where row: "row = [a, b, c, d, e, f, g]"
    by (rule seven_row)
  show ?thesis
    unfolding row by (simp add: prod_row_seven split: option.split)
qed

lemma fast_row_skip:
  "length row \<le> 7 \<Longrightarrow> \<not> accepted fast_clean_phone row \<Longrightarrow> fast_row R row s = (None, s)"
  by (cases "length row = 7") (auto simp: accepted_def fast_row_exact fast_row_short)

lemma fast_row_accepted:
  "accepted fast_clean_phone row \<Longrightarrow>
     fast_row R row s =
       (None, fast_flush R (fast_queue (row ! 0) (row ! 1) (row ! 2) (row ! 3) (row ! 4)
          (row ! 5) (the (fast_clean_phone (row ! 6))) s))"
  by (auto simp: accepted_def fast_row_exact)

lemma fast_row_queued:
  assumes "fast_row R row s = (None, s')"
  shows "queued_teachers s' =
           queued_teachers s @ map (row_teacher fast_clean_phone) (filter (accepted fast_clean_phone) [row])
       \<and> queued_links s' =
           queued_links s @ map (row_link fast_clean_phone) (filter (names_batch fast_clean_phone) [row])
       \<and> queued_batches s' =
           queued_batches s @ first_batches fast_clean_phone (unique_batches s) [row]
       \<and> unique_batches s' =
           (if names_batch fast_clean_phone row then insert (row ! 1) (unique_batches s)
            else unique_batches s)"
proof (cases "accepted fast_clean_phone row")
  case True
  with assms fast_row_accepted [OF True, of R s] show ?thesis
    by (auto simp: fast_flush_queued fast_flush_frame fast_queue_queued names_batch_def
        row_teacher_def row_link_def row_batch_def)
next
  case False
  from assms have le: "length row \<le> 7"
    using fast_row_long [of row R s] by (cases "length row > 7") auto
  with assms fast_row_skip [OF le False, of R s] False show ?thesis
    by (simp add: names_batch_def)
qed

section \<open>The loop of \<^verbatim>\<open>fast-import.py\<close>\<close>

lemma fast_row_fst:
  "fst (fast_row R row s) = (if length row > 7 then Some ValueError else None)"
proof (cases "length row = 7")
  case True
  then show ?thesis by (simp add: fast_row_exact split: option.split)
next
  case False
  then show ?thesis
    using fast_row_short [of row R s] fast_row_long [of row R s]
    by (cases "length row < 7") auto
qed

lemma fast_loop_fst:
  "fst (fast_loop R rows s) = (if \<exists>r\<in>set rows. length r > 7 then Some ValueError else None)"
proof (induction rows arbitrary: s)
  case Nil
  then show ?case by simp
next
  case (Cons row rows)
  obtain e s1 where r: "fast_row R row s = (e, s1)"
    by (cases "fast_row R row s")
  with fast_row_fst [of R row s]
  have e: "e = (if length row > 7 then Some ValueError else None)" by simp
  show ?case
    using Cons.IH [of s1] by (simp add: r e)
qed

lemma fast_loop_append:
  "fast_loop R (xs @ ys) s =
     (case fast_loop R xs s of (None, s') \<Rightarrow> fast_loop R ys s' | (Some e, s') \<Rightarrow> (Some e, s'))"
  by (induction xs arbitrary: s) (auto split: prod.splits option.splits)

lemma fast_loop_queued:
  assumes "fast_loop R rows s = (None, s')"
  shows "queued_teachers s' =
           queued_teachers s @ map (row_teacher fast_clean_phone) (filter (accepted fast_clean_phone) rows)
       \<and> queued_links s' =
           queued_links s @ map (row_link fast_clean_phone) (filter (names_batch fast_clean_phone) rows)
       \<and> queued_batches s' =
           queued_batches s @ first_batches fast_clean_phone (unique_batches s) rows"
  using assms
proof (induction rows arbitrary: s)
  case Nil
  then show ?case by simp
next
  case (Cons row rows)
  obtain e s1 where r: "fast_row R row s = (e, s1)"
    by (cases "fast_row R row s")
  with Cons.prems have e: "e = None" and rest: "fast_loop R rows s1 = (None, s')"
    by (auto split: option.splits)
  note q = fast_row_queued [OF r [unfolded e]]
  note ih = Cons.IH [OF rest]
  show ?case
    using q ih by (simp add: insert_absorb split: if_splits)
qed

lemma fast_row_clean: "clean (conn s) \<Longrightarrow> clean (conn (snd (fast_row R row s)))"
proof (cases "accepted fast_clean_phone row")
  case True
  assume "clean (conn s)"
  then have "clean (conn (fast_queue (row ! 0) (row ! 1) (row ! 2) (row ! 3) (row ! 4)
          (row ! 5) (the (fast_clean_phone (row ! 6))) s))"
    by (simp add: fast_queue_def Let_def)
  then show ?thesis
    by (simp add: fast_row_accepted [OF True] fast_flush_clean)
next
  case False
  assume c: "clean (conn s)"
  show ?thesis
  proof (cases "length row > 7")
    case True
    with c show ?thesis by (simp add: fast_row_long)
  next
    case False
    with c \<open>\<not> accepted fast_clean_phone row\<close> show ?thesis
      by (simp add: fast_row_skip)
  qed
qed

lemma fast_queue_conn: "conn (fast_queue d b st tg tid tn m s) = conn s"
  by (simp add: fast_queue_def Let_def)

lemma fast_queue_retarget:
  "fast_queue d b st tg tid tn m (retarget_state G s) =
     retarget_state G (fast_queue d b st tg tid tn m s)"
  by (simp add: fast_queue_def Let_def retarget_state_def)

lemma fast_row_mono:
  assumes "clean (conn s)"
  shows "below (committed (conn s)) (committed (conn (snd (fast_row R row s))))"
proof (cases "accepted fast_clean_phone row")
  case True
  let ?q = "fast_queue (row ! 0) (row ! 1) (row ! 2) (row ! 3) (row ! 4)
          (row ! 5) (the (fast_clean_phone (row ! 6))) s"
  from assms have "clean (conn ?q)" by (simp add: fast_queue_conn)
  from fast_flush_mono [OF this, of R] show ?thesis
    by (simp add: fast_row_accepted [OF True] fast_queue_conn)
next
  case False
  show ?thesis
  proof (cases "length row > 7")
    case True
    then show ?thesis by (simp add: fast_row_long below_refl)
  next
    case False
    with \<open>\<not> accepted fast_clean_phone row\<close> show ?thesis
      by (simp add: fast_row_skip below_refl)
  qed
qed

lemma fast_row_retarget:
  assumes "clean (conn s)" and "below (committed (conn (snd (fast_row R row s)))) G"
  shows "fast_row R row (retarget_state G s) =
           (fst (fast_row R row s), retarget_state G (snd (fast_row R row s)))"
proof (cases "accepted fast_clean_phone row")
  case True
  let ?q = "fast_queue (row ! 0) (row ! 1) (row ! 2) (row ! 3) (row ! 4)
          (row ! 5) (the (fast_clean_phone (row ! 6))) s"
  from assms(1) have c: "clean (conn ?q)" by (simp add: fast_queue_conn)
  from assms(2) have b: "below (committed (conn (fast_flush R ?q))) G"
    by (simp add: fast_row_accepted [OF True])
  show ?thesis
    by (simp only: fast_row_accepted [OF True] fast_queue_retarget fast_flush_retarget [OF c b]
        fst_conv snd_conv)
next
  case False
  show ?thesis
  proof (cases "length row > 7")
    case True
    then show ?thesis by (simp add: fast_row_long)
  next
    case False
    with \<open>\<not> accepted fast_clean_phone row\<close> show ?thesis
      by (simp add: fast_row_skip)
  qed
qed

lemma fast_loop_clean: "clean (conn s) \<Longrightarrow> clean (conn (snd (fast_loop R rows s)))"
proof (induction rows arbitrary: s)
  case Nil
  then show ?case by simp
next
  case (Cons row rows)
  obtain e s1 where r: "fast_row R row s = (e, s1)"
    by (cases "fast_row R row s")
  from fast_row_clean [OF Cons.prems, of R row] r have c1: "clean (conn s1)" by simp
  show ?case
  proof (cases e)
    case None
    with r Cons.IH [OF c1] show ?thesis by simp
  next
    case (Some a)
    with r c1 show ?thesis by simp
  qed
qed

lemma fast_loop_mono:
  "clean (conn s) \<Longrightarrow> below (committed (conn s)) (committed (conn (snd (fast_loop R rows s))))"
proof (induction rows arbitrary: s)
  case Nil
  then show ?case by (simp add: below_refl)
next
  case (Cons row rows)
  obtain e s1 where r: "fast_row R row s = (e, s1)"
    by (cases "fast_row R row s")
  from fast_row_clean [OF Cons.prems, of R row] r have c1: "clean (conn s1)" by simp
  from fast_row_mono [OF Cons.prems, of R row] r
  have m1: "below (committed (conn s)) (committed (conn s1))" by simp
  show ?case
  proof (cases e)
    case None
    with r below_trans [OF m1 Cons.IH [OF c1]] show ?thesis by simp
  next
    case (Some a)
    with r m1 show ?thesis by simp
  qed
qed

lemma fast_loop_retarget:
  assumes "clean (conn s)" and "below (committed (conn (snd (fast_loop R rows s)))) G"
  shows "fast_loop R rows (retarget_state G s) =
           (fst (fast_loop R rows s), retarget_state G (snd (fast_loop R rows s)))"
  using assms
proof (induction rows arbitrary: s)
  case Nil
  then show ?case by simp
next
  case (Cons row rows)
  obtain e s1 where r: "fast_row R row s = (e, s1)"
    by (cases "fast_row R row s")
  from fast_row_clean [OF Cons.prems(1), of R row] r have c1: "clean (conn s1)" by simp
  show ?case
  proof (cases e)
    case None
    with r Cons.prems(2) have b: "below (committed (conn (snd (fast_loop R rows s1)))) G"
      by simp
    from below_trans [OF fast_loop_mono [OF c1] b]
    have "below (committed (conn (snd (fast_row R row s)))) G"
      by (simp add: r)
    from fast_row_retarget [OF Cons.prems(1) this]
    have "fast_row R row (retarget_state G s) = (None, retarget_state G s1)"
      by (simp add: r None)
    with Cons.IH [OF c1 b] r None show ?thesis by simp
  next
    case (Some a)
    with r Cons.prems(2) have "below (committed (conn (snd (fast_row R row s)))) G"
      by simp
    from fast_row_retarget [OF Cons.prems(1) this]
    have "fast_row R row (retarget_state G s) = (Some a, retarget_state G s1)"
      by (simp add: r Some)
    with r Some show ?thesis by simp
  qed
qed

section \<open>Writes in sequence and a second run\<close>

lemma store_opI:
  assumes "\<And>c. committed (snd (f c)) = committed c"
    and "\<And>c c'. f c = (None, c') \<Longrightarrow> below (working c) (working c')"
    and "\<And>c c' G. f c = (None, c') \<Longrightarrow> below (working c') G \<Longrightarrow>
           f (retarget G c) = (None, retarget G c')"
    and "\<And>c d. calls c = calls d \<Longrightarrow> fst (f c) = fst (f d)"
    and "\<And>c d. calls c = calls d \<Longrightarrow> calls (snd (f c)) = calls (snd (f d))"
  shows "store_op f"
  unfolding store_op_def using assms by blast

lemma store_op_committed: "store_op f \<Longrightarrow> committed (snd (f c)) = committed c"
  by (simp add: store_op_def)

lemma store_op_below: "store_op f \<Longrightarrow> f c = (None, c') \<Longrightarrow> below (working c) (working c')"
  unfolding store_op_def by blast

lemma store_op_retarget:
  "store_op f \<Longrightarrow> f c = (None, c') \<Longrightarrow> below (working c') G \<Longrightarrow>
     f (retarget G c) = (None, retarget G c')"
  unfolding store_op_def by blast

lemma store_op_fst: "store_op f \<Longrightarrow> calls c = calls d \<Longrightarrow> fst (f c) = fst (f d)"
  unfolding store_op_def by blast

lemma store_op_calls:
  "store_op f \<Longrightarrow> calls c = calls d \<Longrightarrow> calls (snd (f c)) = calls (snd (f d))"
  unfolding store_op_def by blast

lemma store_op_skip: "store_op (\<lambda>c. (None, c))"
  by (rule store_opI) (simp_all add: below_refl)

lemma store_op_if: "store_op f \<Longrightarrow> store_op g \<Longrightarrow> store_op (if b then f else g)"
  by simp

lemma store_op_teachers: "store_op (executemany_teachers R chunk)"
proof (rule store_opI)
  fix c d :: conn
  assume "calls c = calls d"
  then show "fst (executemany_teachers R chunk c) = fst (executemany_teachers R chunk d)"
    and "calls (snd (executemany_teachers R chunk c)) = calls (snd (executemany_teachers R chunk d))"
    by (simp_all add: executemany_teachers_fst executemany_teachers_calls)
qed (simp_all add: executemany_teachers_committed executemany_teachers_below(1)
       executemany_teachers_retarget)

lemma store_op_batches: "store_op (executemany_batches R chunk)"
proof (rule store_opI)
  fix c d :: conn
  assume "calls c = calls d"
  then show "fst (executemany_batches R chunk c) = fst (executemany_batches R chunk d)"
    and "calls (snd (executemany_batches R chunk c)) = calls (snd (executemany_batches R chunk d))"
    by (simp_all add: executemany_batches_fst executemany_batches_calls)
qed (simp_all add: executemany_batches_committed executemany_batches_below(1)
       executemany_batches_retarget)

lemma store_op_links: "store_op (executemany_links R chunk)"
proof (rule store_opI)
  fix c d :: conn
  assume "calls c = calls d"
  then show "fst (executemany_links R chunk c) = fst (executemany_links R chunk d)"
    and "calls (snd (executemany_links R chunk c)) = calls (snd (executemany_links R chunk d))"
    by (simp_all add: executemany_links_fst executemany_links_calls)
qed (simp_all add: executemany_links_committed executemany_links_below(1)
       executemany_links_retarget)

lemma seq_None:
  "seq f g c = (None, c') \<longleftrightarrow> (\<exists>c1. f c = (None, c1) \<and> g c1 = (None, c'))"
  by (cases "f c") (auto simp: seq_def split: option.splits)

lemma seq_Some:
  "f c = (Some e, c1) \<Longrightarrow> seq f g c = (Some e, c1)"
  by (simp add: seq_def)

lemma seq_ok:
  "f c = (None, c1) \<Longrightarrow> seq f g c = g c1"
  by (simp add: seq_def)

lemma store_op_seq:
  assumes f: "store_op f" and g: "store_op g"
  shows "store_op (seq f g)"
proof (rule store_opI)
  fix c
  obtain e c1 where fc: "f c = (e, c1)" by (cases "f c")
  from store_op_committed [OF f, of c] fc have 1: "committed c1 = committed c" by simp
  show "committed (snd (seq f g c)) = committed c"
  proof (cases e)
    case None
    with fc store_op_committed [OF g, of c1] 1 show ?thesis by (simp add: seq_def)
  next
    case (Some a)
    with fc 1 show ?thesis by (simp add: seq_def)
  qed
next
  fix c c'
  assume "seq f g c = (None, c')"
  then obtain c1 where fc: "f c = (None, c1)" and gc: "g c1 = (None, c')"
    unfolding seq_None by blast
  from store_op_below [OF f fc] store_op_below [OF g gc]
  show "below (working c) (working c')" by (rule below_trans)
next
  fix c c' G
  assume "seq f g c = (None, c')" and b: "below (working c') G"
  then obtain c1 where fc: "f c = (None, c1)" and gc: "g c1 = (None, c')"
    unfolding seq_None by blast
  from store_op_below [OF g gc] b have "below (working c1) G" by (rule below_trans)
  from store_op_retarget [OF f fc this] store_op_retarget [OF g gc b]
  show "seq f g (retarget G c) = (None, retarget G c')"
    by (simp add: seq_def)
next
  fix c d :: conn
  assume cd: "calls c = calls d"
  obtain e c1 where fc: "f c = (e, c1)" by (cases "f c")
  obtain e' d1 where fd: "f d = (e', d1)" by (cases "f d")
  from store_op_fst [OF f cd] store_op_calls [OF f cd] fc fd
  have e: "e' = e" and 1: "calls c1 = calls d1" by simp_all
  show "fst (seq f g c) = fst (seq f g d)"
    using fc fd e store_op_fst [OF g 1] by (cases e) (simp_all add: seq_def)
  show "calls (snd (seq f g c)) = calls (snd (seq f g d))"
    using fc fd e 1 store_op_calls [OF g 1] by (cases e) (simp_all add: seq_def)
qed

lemma store_op_teacher_slices: "store_op (insert_teacher_slices R chunks)"
proof (induction chunks)
  case Nil
  have "insert_teacher_slices R [] = (\<lambda>c. (None, c))" by (rule ext) simp
  then show ?case by (simp add: store_op_skip)
next
  case (Cons b rest)
  have "insert_teacher_slices R (b # rest) =
          seq (executemany_teachers R b) (insert_teacher_slices R rest)"
    by (rule ext) (simp add: seq_def)
  with store_op_seq [OF store_op_teachers Cons.IH] show ?case by simp
qed

lemma store_op_link_slices: "store_op (insert_link_slices R chunks)"
proof (induction chunks)
  case Nil
  have "insert_link_slices R [] = (\<lambda>c. (None, c))" by (rule ext) simp
  then show ?case by (simp add: store_op_skip)
next
  case (Cons b rest)
  have "insert_link_slices R (b # rest) =
          seq (executemany_links R b) (insert_link_slices R rest)"
    by (rule ext) (simp add: seq_def)
  with store_op_seq [OF store_op_links Cons.IH] show ?case by simp
qed

lemma store_op_fast_final_writes: "store_op (fast_final_writes R s)"
  unfolding fast_final_writes_def
  by (intro store_op_seq store_op_if store_op_skip store_op_teachers store_op_batches
      store_op_links)

lemma store_op_prod_writes: "store_op (prod_writes R s)"
  unfolding prod_writes_def
  by (intro store_op_seq store_op_if store_op_skip store_op_batches
      store_op_teacher_slices store_op_link_slices)

lemma fast_final_finish: "fast_final R s = finish (fast_final_writes R s) (conn s)"
  by (simp add: fast_final_def finish_def fast_final_writes_def seq_def
      split: prod.splits option.splits)

lemma prod_write_finish: "prod_write R s c = finish (prod_writes R s) c"
  by (simp add: prod_write_def finish_def prod_writes_def seq_def
      split: prod.splits option.splits)

lemma finish_mono:
  assumes W: "store_op W" and c: "clean c"
  shows "below (committed c) (committed (settle (finish W c)))"
proof -
  obtain e c1 where w: "W c = (e, c1)" by (cases "W c")
  show ?thesis
  proof (cases e)
    case None
    from store_op_below [OF W w [unfolded None]] c
    have "below (committed c) (working c1)" by (simp add: clean_def)
    with w None show ?thesis
      by (simp add: finish_def settle_def commit_def)
  next
    case (Some a)
    from store_op_committed [OF W, of c] w have "committed c1 = committed c" by simp
    with w Some show ?thesis
      by (simp add: finish_def settle_def rollback_def below_refl)
  qed
qed

lemma finish_again:
  assumes W: "store_op W" and c: "clean c"
    and F: "F = committed (settle (finish W c))"
  shows "fst (finish W (retarget F c)) = fst (finish W c)"
    and "committed (settle (finish W (retarget F c))) = F"
    and "calls (settle (finish W (retarget F c))) = calls (settle (finish W c))"
proof -
  obtain e c1 where w: "W c = (e, c1)" by (cases "W c")
  obtain e' d1 where w': "W (retarget F c) = (e', d1)" by (cases "W (retarget F c)")
  have cc: "calls (retarget F c) = calls c" by (simp add: retarget_def)
  from store_op_fst [OF W cc] store_op_calls [OF W cc] w w'
  have e: "e' = e" and k: "calls d1 = calls c1" by simp_all
  from store_op_committed [OF W, of "retarget F c"] w'
  have cd: "committed d1 = F" by (simp add: retarget_def)
  have "fst (finish W (retarget F c)) = fst (finish W c)
      \<and> committed (settle (finish W (retarget F c))) = F
      \<and> calls (settle (finish W (retarget F c))) = calls (settle (finish W c))"
  proof (cases e)
    case None
    with w F have Fw: "F = working c1"
      by (simp add: finish_def settle_def commit_def)
    then have "below (working c1) F" by (simp add: below_refl)
    from store_op_retarget [OF W w [unfolded None] this]
    have "W (retarget F c) = (None, retarget F c1)" .
    with w None show ?thesis
      by (simp add: finish_def settle_def commit_def retarget_def)
  next
    case (Some a)
    with w w' e k cd show ?thesis
      by (simp add: finish_def settle_def rollback_def)
  qed
  then show "fst (finish W (retarget F c)) = fst (finish W c)"
    and "committed (settle (finish W (retarget F c))) = F"
    and "calls (settle (finish W (retarget F c))) = calls (settle (finish W c))"
    by simp_all
qed

lemma clean_connect: "clean (connect db)"
  by (simp add: clean_def connect_def)

lemma retarget_connect: "retarget F (connect db) = connect F"
  by (simp add: retarget_def connect_def)

lemma retarget_fast_init: "retarget_state F (fast_init (connect db)) = fast_init (connect F)"
  by (simp add: retarget_state_def fast_init_def retarget_connect)

lemma fast_final_writes_conn:
  "fast_final_writes R (s\<lparr>conn := c\<rparr>) = fast_final_writes R s"
  by (simp add: fast_final_writes_def)

lemma import_data_settle:
  "import_data R w db =
     (if \<not> reachable w then \<lparr>exit_status = 1, store_after = db, trace = []\<rparr>
      else \<lparr>exit_status = 0,
            store_after = committed (settle (fast_body R (csv_file w) (connect db))),
            trace = calls (settle (fast_body R (csv_file w) (connect db)))\<rparr>)"
  by (simp add: import_data_def settle_def Let_def split: prod.splits option.splits)

lemma import_production_data_settle:
  "import_production_data isdigit R w db =
     (if \<not> reachable w then \<lparr>exit_status = 1, store_after = db, trace = []\<rparr>
      else \<lparr>exit_status =
              (case fst (prod_body isdigit R (csv_file w) (connect db)) of
                 None \<Rightarrow> 0 | Some e \<Rightarrow> 1),
            store_after = committed (settle (prod_body isdigit R (csv_file w) (connect db))),
            trace = calls (settle (prod_body isdigit R (csv_file w) (connect db)))\<rparr>)"
  by (simp add: import_production_data_def settle_def Let_def split: prod.splits option.splits)

lemma settle_error: "committed (settle (Some e, c)) = committed c"
  by (simp add: settle_def rollback_def)

lemma fast_body_again:
  assumes F: "F = committed (settle (fast_body R file (connect db)))"
  shows "committed (settle (fast_body R file (connect F))) = F
       \<and> calls (settle (fast_body R file (connect F))) =
           calls (settle (fast_body R file (connect db)))"
proof (cases "file")
  case None
  with F show ?thesis
    by (simp add: fast_body_def settle_def rollback_def connect_def)
next
  case (Some all_rows)
  show ?thesis
  proof (cases all_rows)
    case Nil
    with Some F show ?thesis
      by (simp add: fast_body_def settle_def rollback_def connect_def)
  next
    case (Cons header rows)
    obtain e s1 where l: "fast_loop R rows (fast_init (connect db)) = (e, s1)"
      by (cases "fast_loop R rows (fast_init (connect db))")
    have c0: "clean (conn (fast_init (connect db)))"
      by (simp add: fast_init_def clean_connect)
    from fast_loop_clean [OF c0, of R rows] l have c1: "clean (conn s1)" by simp
    show ?thesis
    proof (cases e)
      case (Some a)
      with l F \<open>file = Some all_rows\<close> Cons have Fc: "F = committed (conn s1)"
        by (simp add: fast_body_def settle_error)
      then have "below (committed (conn (snd (fast_loop R rows (fast_init (connect db)))))) F"
        by (simp add: l below_refl)
      from fast_loop_retarget [OF c0 this] l Some
      have "fast_loop R rows (fast_init (connect F)) = (Some a, retarget_state F s1)"
        by (simp add: retarget_fast_init)
      with l Some \<open>file = Some all_rows\<close> Cons show ?thesis
        by (simp add: fast_body_def settle_def rollback_def retarget_state_def retarget_def)
    next
      case None
      let ?W = "fast_final_writes R s1"
      from l None F \<open>file = Some all_rows\<close> Cons
      have Ff: "F = committed (settle (finish ?W (conn s1)))"
        by (simp add: fast_body_def fast_final_finish)
      from finish_mono [OF store_op_fast_final_writes c1, of R s1] Ff
      have "below (committed (conn (snd (fast_loop R rows (fast_init (connect db)))))) F"
        by (simp add: l)
      from fast_loop_retarget [OF c0 this] l None
      have l2: "fast_loop R rows (fast_init (connect F)) = (None, retarget_state F s1)"
        by (simp add: retarget_fast_init)
      have b2: "fast_body R file (connect F) = finish ?W (retarget F (conn s1))"
        using l2 \<open>file = Some all_rows\<close> Cons
        by (simp add: fast_body_def fast_final_finish fast_final_writes_conn
            retarget_state_def)
      have b1: "fast_body R file (connect db) = finish ?W (conn s1)"
        using l None \<open>file = Some all_rows\<close> Cons
        by (simp add: fast_body_def fast_final_finish)
      from finish_again(2,3) [OF store_op_fast_final_writes c1 Ff]
      show ?thesis
        unfolding b1 b2 by simp
    qed
  qed
qed

lemma prod_body_again:
  assumes F: "F = committed (settle (prod_body isdigit R file (connect db)))"
  shows "fst (prod_body isdigit R file (connect F)) = fst (prod_body isdigit R file (connect db))
       \<and> committed (settle (prod_body isdigit R file (connect F))) = F
       \<and> calls (settle (prod_body isdigit R file (connect F))) =
           calls (settle (prod_body isdigit R file (connect db)))"
proof (cases "file")
  case None
  with F show ?thesis
    by (simp add: prod_body_def settle_def rollback_def connect_def)
next
  case (Some all_rows)
  show ?thesis
  proof (cases all_rows)
    case Nil
    with Some F show ?thesis
      by (simp add: prod_body_def settle_def rollback_def connect_def)
  next
    case (Cons header rows)
    obtain e s1 where l: "prod_loop isdigit rows prod_init = (e, s1)"
      by (cases "prod_loop isdigit rows prod_init")
    show ?thesis
    proof (cases e)
      case (Some a)
      with l F \<open>file = Some all_rows\<close> Cons show ?thesis
        by (simp add: prod_body_def settle_def rollback_def connect_def)
    next
      case None
      let ?W = "prod_writes R s1"
      have b: "prod_body isdigit R file c = finish ?W c" for c
        using l None \<open>file = Some all_rows\<close> Cons
        by (simp add: prod_body_def prod_write_finish)
      from F have Ff: "F = committed (settle (finish ?W (connect db)))"
        by (simp add: b)
      from finish_again [OF store_op_prod_writes clean_connect Ff]
      show ?thesis
        by (simp add: b retarget_connect)
    qed
  qed
qed

lemma import_data_again:
  "import_data R w (store_after (import_data R w db)) = import_data R w db"
proof (cases "reachable w")
  case False
  then show ?thesis by (simp add: import_data_settle)
next
  case True
  let ?F = "committed (settle (fast_body R (csv_file w) (connect db)))"
  from fast_body_again [of ?F R "csv_file w" db] True show ?thesis
    by (simp add: import_data_settle)
qed

lemma import_production_data_again:
  "import_production_data isdigit R w (store_after (import_production_data isdigit R w db)) =
     import_production_data isdigit R w db"
proof (cases "reachable w")
  case False
  then show ?thesis by (simp add: import_production_data_settle)
next
  case True
  let ?F = "committed (settle (prod_body isdigit R (csv_file w) (connect db)))"
  from prod_body_again [of ?F isdigit R "csv_file w" db] True show ?thesis
    by (simp add: import_production_data_settle)
qed

section \<open>The write phases as lists of calls\<close>

lemma exec_call_fst:
  "fst (exec_call R k c) = (if call_bad R k then Some DataError else None)"
  by (cases k)
    (simp_all add: executemany_teachers_fst executemany_batches_fst executemany_links_fst)

lemma exec_call_calls: "calls (snd (exec_call R k c)) = calls c @ [k]"
  by (cases k) (simp_all add: executemany_calls calls_commit calls_rollback)

lemma exec_calls_fst:
  "fst (exec_calls R ks c) = (if \<exists>k\<in>set ks. call_bad R k then Some DataError else None)"
proof (induction ks arbitrary: c)
  case Nil
  then show ?case by simp
next
  case (Cons k ks)
  obtain e c1 where r: "exec_call R k c = (e, c1)" by (cases "exec_call R k c")
  with exec_call_fst [of R k c]
  have e: "e = (if call_bad R k then Some DataError else None)" by simp
  show ?case using Cons.IH [of c1] by (simp add: r e)
qed

lemma exec_calls_calls: "calls (snd (exec_calls R ks c)) = calls c @ attempted R ks"
proof (induction ks arbitrary: c)
  case Nil
  then show ?case by simp
next
  case (Cons k ks)
  obtain e c1 where r: "exec_call R k c = (e, c1)" by (cases "exec_call R k c")
  with exec_call_fst [of R k c] exec_call_calls [of R k c]
  have e: "e = (if call_bad R k then Some DataError else None)"
    and c1: "calls c1 = calls c @ [k]" by simp_all
  show ?case using Cons.IH [of c1] by (simp add: r e c1)
qed

lemma attempted_all: "\<forall>k\<in>set ks. \<not> call_bad R k \<Longrightarrow> attempted R ks = ks"
  by (induction ks) auto

lemma attempted_prefix: "\<exists>rest. ks = attempted R ks @ rest"
  by (induction ks) auto

lemma attempted_subset: "set (attempted R ks) \<subseteq> set ks"
  by (induction ks) auto

lemma attempted_bad_last:
  "\<exists>k\<in>set ks. call_bad R k \<Longrightarrow> attempted R ks \<noteq> [] \<and> call_bad R (last (attempted R ks))"
  by (induction ks) auto

lemma exec_calls_append_at:
  "exec_calls R (xs @ ys) c = seq (exec_calls R xs) (exec_calls R ys) c"
  by (induction xs arbitrary: c) (auto simp: seq_def split: prod.splits option.splits)

lemma exec_calls_append:
  "seq (exec_calls R xs) (exec_calls R ys) = exec_calls R (xs @ ys)"
  by (rule ext) (simp add: exec_calls_append_at)

lemma insert_teacher_slices_exec:
  "insert_teacher_slices R chunks c = exec_calls R (map InsertTeachers chunks) c"
  by (induction chunks arbitrary: c) (auto split: prod.splits option.splits)

lemma insert_link_slices_exec:
  "insert_link_slices R chunks c = exec_calls R (map InsertLinks chunks) c"
  by (induction chunks arbitrary: c) (auto split: prod.splits option.splits)

lemma prod_writes_exec: "prod_writes R s c = exec_calls R (prod_calls s) c"
proof -
  have 1: "(if b then executemany_batches R ch else (\<lambda>c. (None, c))) =
        exec_calls R (if b then [InsertBatches ch] else [])" for b ch
    by (rule ext) (simp split: prod.splits option.splits)
  have 2: "insert_teacher_slices R chunks = exec_calls R (map InsertTeachers chunks)" for chunks
    by (rule ext) (rule insert_teacher_slices_exec)
  have 3: "insert_link_slices R chunks = exec_calls R (map InsertLinks chunks)" for chunks
    by (rule ext) (rule insert_link_slices_exec)
  show ?thesis
    unfolding prod_writes_def prod_calls_def 1 2 3
    by (simp only: exec_calls_append)
qed

lemma fast_final_writes_exec: "fast_final_writes R s c = exec_calls R (final_calls s) c"
proof -
  have 1: "(if b then executemany_teachers R ch else (\<lambda>c. (None, c))) =
        exec_calls R (if b then [InsertTeachers ch] else [])" for b ch
    by (rule ext) (simp split: prod.splits option.splits)
  have 2: "(if b then executemany_batches R ch else (\<lambda>c. (None, c))) =
        exec_calls R (if b then [InsertBatches ch] else [])" for b ch
    by (rule ext) (simp split: prod.splits option.splits)
  have 3: "(if b then executemany_links R ch else (\<lambda>c. (None, c))) =
        exec_calls R (if b then [InsertLinks ch] else [])" for b ch
    by (rule ext) (simp split: prod.splits option.splits)
  show ?thesis
    unfolding fast_final_writes_def final_calls_def 1 2 3
    by (simp only: exec_calls_append)
qed

text \<open>What a write phase with its commit, and the handler after it, leave in the log.\<close>

lemma finish_exec_fst:
  "fst (finish (exec_calls R ks) c) =
     (if \<exists>k\<in>set ks. call_bad R k then Some DataError else None)"
proof -
  obtain e c1 where r: "exec_calls R ks c = (e, c1)" by (cases "exec_calls R ks c")
  with exec_calls_fst [of R ks c]
  have "e = (if \<exists>k\<in>set ks. call_bad R k then Some DataError else None)" by simp
  with r show ?thesis by (simp add: finish_def)
qed

lemma finish_exec_calls:
  "calls (settle (finish (exec_calls R ks) c)) =
     calls c @ attempted R ks @ (if \<exists>k\<in>set ks. call_bad R k then [Rollback] else [Commit])"
proof -
  obtain e c1 where r: "exec_calls R ks c = (e, c1)" by (cases "exec_calls R ks c")
  with exec_calls_fst [of R ks c] exec_calls_calls [of R ks c]
  have "e = (if \<exists>k\<in>set ks. call_bad R k then Some DataError else None)"
    and "calls c1 = calls c @ attempted R ks" by simp_all
  with r show ?thesis
    by (simp add: finish_def settle_def calls_commit calls_rollback)
qed

lemma finish_failed:
  assumes W: "store_op W" and f: "fst (W c) \<noteq> None"
  shows "committed (settle (finish W c)) = committed c"
proof -
  obtain e c1 where r: "W c = (e, c1)" by (cases "W c")
  with f obtain a where e: "e = Some a" by auto
  from store_op_committed [OF W, of c] r have "committed c1 = committed c" by simp
  with r e show ?thesis
    by (simp add: finish_def settle_def rollback_def)
qed

section \<open>Malformed rows and the exit status\<close>

lemma alice_mobile:
  "fast_clean_phone ''(98) 765-43210x9'' = Some ''9876543210''"
  "clean_phone_number ascii_digit ''(98) 765-43210x9'' = Some ''9876543210''"
  by (simp_all add: fast_clean_phone_def clean_phone_number_def ascii_digit_def)

lemma prod_loop_fst:
  "fst (prod_loop isdigit rows s) = (if \<exists>r\<in>set rows. length r > 7 then Some ValueError else None)"
proof (induction rows arbitrary: s)
  case Nil
  then show ?case by simp
next
  case (Cons row rows)
  have e: "fst (prod_row isdigit row s) = (if length row > 7 then Some ValueError else None)"
  proof (cases "length row = 7")
    case True
    then show ?thesis by (simp add: prod_row_exact split: option.split)
  next
    case False
    then show ?thesis
      using prod_row_short [of row isdigit s] prod_row_long [of row isdigit s]
      by (cases "length row < 7") auto
  qed
  obtain e' s1 where r: "prod_row isdigit row s = (e', s1)"
    by (cases "prod_row isdigit row s")
  show ?case
    using Cons.IH [of s1] e by (simp add: r)
qed

lemma prod_loop_append:
  "prod_loop isdigit (xs @ ys) s =
     (case prod_loop isdigit xs s of
        (None, s') \<Rightarrow> prod_loop isdigit ys s' | (Some e, s') \<Rightarrow> (Some e, s'))"
  by (induction xs arbitrary: s) (auto split: prod.splits option.splits)

text \<open>
  C4 fails for a row of more than 7 fields: such a row is not skipped, unpacking it into
  seven names raises \<^verbatim>\<open>ValueError\<close>, and the run ends in the handler of the
  function. Here the file holds a good row and then a row of 8 fields: nothing is written,
  not even the good row, and \<^verbatim>\<open>production-import.py\<close> exits with status 1.
\<close>

theorem malformed_row_counterexample:
  "import_production_data ascii_digit accept_all
     \<lparr>reachable = True, csv_file = Some [header_row, alice, eight_fields]\<rparr> empty_store =
     \<lparr>exit_status = 1, store_after = empty_store, trace = [Rollback]\<rparr>
   \<and> import_data accept_all
     \<lparr>reachable = True, csv_file = Some [header_row, alice, eight_fields]\<rparr> empty_store =
     \<lparr>exit_status = 0, store_after = empty_store, trace = [Rollback]\<rparr>"
  by code_simp

lemma fast_loop_drop_short:
  "length row < 7 \<Longrightarrow> fast_loop R (before @ row # after) s = fast_loop R (before @ after) s"
  by (simp add: fast_loop_append fast_row_short split: prod.splits option.splits)

lemma prod_loop_drop_short:
  "length row < 7 \<Longrightarrow>
     prod_loop isdigit (before @ row # after) s = prod_loop isdigit (before @ after) s"
  by (simp add: prod_loop_append prod_row_short split: prod.splits option.splits)

text \<open>
  C4, as amended. A row of fewer than 7 fields is skipped by both loops: the state is
  left as it was, so nothing is queued for the row, the loop goes on with the next row,
  and the whole run ends exactly as it would on the file without that row.
\<close>

theorem short_row_skipped:
  assumes "length row < 7"
  shows "fast_row R row s = (None, s)
       \<and> prod_row isdigit row ps = (None, ps)
       \<and> fast_loop R (before @ row # after) s = fast_loop R (before @ after) s
       \<and> prod_loop isdigit (before @ row # after) ps = prod_loop isdigit (before @ after) ps
       \<and> import_data R \<lparr>reachable = up, csv_file = Some (header # before @ row # after)\<rparr> db =
           import_data R \<lparr>reachable = up, csv_file = Some (header # before @ after)\<rparr> db
       \<and> import_production_data isdigit R
             \<lparr>reachable = up, csv_file = Some (header # before @ row # after)\<rparr> db =
           import_production_data isdigit R
             \<lparr>reachable = up, csv_file = Some (header # before @ after)\<rparr> db"
proof -
  note f = fast_loop_drop_short [OF assms]
  note p = prod_loop_drop_short [OF assms]
  have 1: "import_data R \<lparr>reachable = up, csv_file = Some (header # before @ row # after)\<rparr> db =
           import_data R \<lparr>reachable = up, csv_file = Some (header # before @ after)\<rparr> db"
    by (simp add: import_data_def fast_body_def f)
  have 2: "import_production_data isdigit R
             \<lparr>reachable = up, csv_file = Some (header # before @ row # after)\<rparr> db =
           import_production_data isdigit R
             \<lparr>reachable = up, csv_file = Some (header # before @ after)\<rparr> db"
    by (simp add: import_production_data_def prod_body_def p)
  from fast_row_short [OF assms] prod_row_short [OF assms] f p 1 2
  show ?thesis by (intro conjI)
qed

theorem short_row_skipped_witness:
  "fast_row accept_all [''D1'', ''B1''] (fast_init (connect empty_store)) =
     (None, fast_init (connect empty_store))
   \<and> import_data accept_all
       \<lparr>reachable = True, csv_file = Some [header_row, [''D1'', ''B1''], alice]\<rparr> empty_store =
     import_data accept_all
       \<lparr>reachable = True, csv_file = Some [header_row, alice]\<rparr> empty_store"
proof -
  have l: "length [''D1'', ''B1''] < 7" by simp
  note t = short_row_skipped [OF l, of accept_all "fast_init (connect empty_store)" ascii_digit
      prod_init "[]" "[alice]" True header_row empty_store]
  from t have 1: "fast_row accept_all [''D1'', ''B1''] (fast_init (connect empty_store)) =
     (None, fast_init (connect empty_store))"
    by (rule conjunct1)
  from t have 2: "import_data accept_all
       \<lparr>reachable = True, csv_file = Some (header_row # [] @ [''D1'', ''B1''] # [alice])\<rparr> empty_store =
     import_data accept_all
       \<lparr>reachable = True, csv_file = Some (header_row # [] @ [alice])\<rparr> empty_store"
    by (elim conjE)
  from 1 2 show ?thesis by simp
qed

text \<open>
  C6. When the CSV file cannot be opened, \<^verbatim>\<open>fast-import.py\<close> rolls back and then
  ends with exit status 0: its handler has no \<^verbatim>\<open>sys.exit(1)\<close>, which the handler
  of \<^verbatim>\<open>production-import.py\<close> has. In \<^verbatim>\<open>fast-import.py\<close> the exit status is 0
  whenever the connection could be made, whatever happens after.
\<close>

theorem fast_import_failure_exit_status:
  "import_data R \<lparr>reachable = True, csv_file = None\<rparr> db =
     \<lparr>exit_status = 0, store_after = db, trace = [Rollback]\<rparr>
   \<and> exit_status (import_data R w db) = (if reachable w then 0 else 1)
   \<and> import_production_data isdigit R \<lparr>reachable = True, csv_file = None\<rparr> db =
     \<lparr>exit_status = 1, store_after = db, trace = [Rollback]\<rparr>"
  by (simp add: import_data_settle import_production_data_def fast_body_def
      prod_body_def settle_def rollback_def connect_def)

section \<open>The loop of \<^verbatim>\<open>production-import.py\<close> and the first row of a batch\<close>

lemma prod_queue_records:
  "teacher_records (prod_queue d b st tg tid tn m s) =
     teacher_records s @ [(clean_teacher_id tid, tn, m, d, or_primary st, or_primary tg)]"
  "batch_teacher_records (prod_queue d b st tg tid tn m s) =
     batch_teacher_records s @ (if has_batch b then [(b, m, tn, d)] else [])"
  "batch_values (batch_data (prod_queue d b st tg tid tn m s)) =
     batch_values (batch_data s) @
       (if has_batch b \<and> b \<notin> fst ` set (batch_data s)
        then [(b, d, ''Production Import'', or_primary st, or_primary tg)] else [])"
  "fst ` set (batch_data (prod_queue d b st tg tid tn m s)) =
     (if has_batch b then insert b (fst ` set (batch_data s)) else fst ` set (batch_data s))"
  by (auto simp: prod_queue_def batch_values_def Let_def)

lemma prod_row_skip:
  "length row \<le> 7 \<Longrightarrow> \<not> accepted (clean_phone_number isdigit) row \<Longrightarrow>
     prod_row isdigit row s = (None, s)"
  by (cases "length row = 7") (auto simp: accepted_def prod_row_exact prod_row_short)

lemma prod_row_accepted:
  "accepted (clean_phone_number isdigit) row \<Longrightarrow>
     prod_row isdigit row s =
       (None, prod_queue (row ! 0) (row ! 1) (row ! 2) (row ! 3) (row ! 4)
          (row ! 5) (the (clean_phone_number isdigit (row ! 6))) s)"
  by (auto simp: accepted_def prod_row_exact)

lemma prod_row_records:
  assumes "prod_row isdigit row s = (None, s')"
  shows "teacher_records s' =
           teacher_records s @ map (row_teacher (clean_phone_number isdigit))
             (filter (accepted (clean_phone_number isdigit)) [row])
       \<and> batch_teacher_records s' =
           batch_teacher_records s @ map (row_link (clean_phone_number isdigit))
             (filter (names_batch (clean_phone_number isdigit)) [row])
       \<and> batch_values (batch_data s') =
           batch_values (batch_data s) @
             first_batches (clean_phone_number isdigit) (fst ` set (batch_data s)) [row]
       \<and> fst ` set (batch_data s') =
           (if names_batch (clean_phone_number isdigit) row
            then insert (row ! 1) (fst ` set (batch_data s)) else fst ` set (batch_data s))"
proof (cases "accepted (clean_phone_number isdigit) row")
  case True
  from assms prod_row_accepted [OF True, of s]
  have s': "s' = prod_queue (row ! 0) (row ! 1) (row ! 2) (row ! 3) (row ! 4)
          (row ! 5) (the (clean_phone_number isdigit (row ! 6))) s"
    by simp
  show ?thesis
    unfolding s'
    by (simp add: prod_queue_records names_batch_def True row_teacher_def row_link_def
        row_batch_def)
next
  case False
  from assms have le: "length row \<le> 7"
    using prod_row_long [of row isdigit s] by (cases "length row > 7") auto
  with assms prod_row_skip [OF le False, of s] False show ?thesis
    by (simp add: names_batch_def)
qed

lemma prod_loop_records:
  assumes "prod_loop isdigit rows s = (None, s')"
  shows "teacher_records s' =
           teacher_records s @ map (row_teacher (clean_phone_number isdigit))
             (filter (accepted (clean_phone_number isdigit)) rows)
       \<and> batch_teacher_records s' =
           batch_teacher_records s @ map (row_link (clean_phone_number isdigit))
             (filter (names_batch (clean_phone_number isdigit)) rows)
       \<and> batch_values (batch_data s') =
           batch_values (batch_data s) @
             first_batches (clean_phone_number isdigit) (fst ` set (batch_data s)) rows"
  using assms
proof (induction rows arbitrary: s)
  case Nil
  then show ?case by simp
next
  case (Cons row rows)
  obtain e s1 where r: "prod_row isdigit row s = (e, s1)"
    by (cases "prod_row isdigit row s")
  with Cons.prems have e: "e = None" and rest: "prod_loop isdigit rows s1 = (None, s')"
    by (auto split: option.splits)
  note q = prod_row_records [OF r [unfolded e]]
  note ih = Cons.IH [OF rest]
  show ?case
    using q ih by (simp add: insert_absorb split: if_splits)
qed

lemma batch_key_row_batch: "batch_key (row_batch row) = row ! 1"
  by (simp add: batch_key_def row_batch_def)

lemma first_batches_named:
  "filter (\<lambda>t. batch_key t = b) (first_batches cleaner seen rows) =
     (if b \<in> seen then []
      else case find (\<lambda>r. names_batch cleaner r \<and> r ! 1 = b) rows of
             None \<Rightarrow> [] | Some r0 \<Rightarrow> [row_batch r0])"
proof (induction rows arbitrary: seen)
  case Nil
  then show ?case by simp
next
  case (Cons row rows)
  show ?case
  proof (cases "names_batch cleaner row \<and> row ! 1 \<notin> seen")
    case True
    then show ?thesis
      using Cons.IH [of "insert (row ! 1) seen"]
      by (auto simp: batch_key_row_batch)
  next
    case False
    then show ?thesis
      using Cons.IH [of seen] by auto
  qed
qed

lemma link_name_row_link: "fst (row_link cleaner row) = row ! 1"
  by (simp add: row_link_def)

lemma links_named:
  "length (filter (\<lambda>l. fst l = b) (map (row_link cleaner) (filter (names_batch cleaner) rows))) =
     length (filter (\<lambda>r. names_batch cleaner r \<and> r ! 1 = b) rows)"
  by (induction rows) (auto simp: link_name_row_link)

section \<open>A loop that ends at a row of more than seven fields\<close>

text \<open>
  The state a loop leaves is the state it leaves on the rows it reads, and on those
  no row raises.
\<close>

lemma rows_read_all: "\<forall>r\<in>set rows. length r \<le> 7 \<Longrightarrow> rows_read rows = rows"
  by (simp add: rows_read_def)

lemma rows_read_short: "\<forall>r\<in>set (rows_read rows). length r \<le> 7"
  by (auto simp: rows_read_def dest: set_takeWhileD)

lemma fast_loop_read:
  "snd (fast_loop R rows s) = snd (fast_loop R (rows_read rows) s)"
proof (induction rows arbitrary: s)
  case Nil
  then show ?case by (simp add: rows_read_def)
next
  case (Cons row rows)
  show ?case
  proof (cases "length row \<le> 7")
    case True
    obtain e s1 where r: "fast_row R row s = (e, s1)"
      by (cases "fast_row R row s")
    with fast_row_fst [of R row s] True have e: "e = None" by simp
    from Cons.IH [of s1] True show ?thesis
      by (simp add: rows_read_def r e)
  next
    case False
    then show ?thesis
      by (simp add: rows_read_def fast_row_long)
  qed
qed

lemma prod_row_fst:
  "fst (prod_row isdigit row s) = (if length row > 7 then Some ValueError else None)"
proof (cases "length row = 7")
  case True
  then show ?thesis by (simp add: prod_row_exact split: option.split)
next
  case False
  then show ?thesis
    using prod_row_short [of row isdigit s] prod_row_long [of row isdigit s]
    by (cases "length row < 7") auto
qed

lemma prod_loop_read:
  "snd (prod_loop isdigit rows s) = snd (prod_loop isdigit (rows_read rows) s)"
proof (induction rows arbitrary: s)
  case Nil
  then show ?case by (simp add: rows_read_def)
next
  case (Cons row rows)
  show ?case
  proof (cases "length row \<le> 7")
    case True
    obtain e s1 where r: "prod_row isdigit row s = (e, s1)"
      by (cases "prod_row isdigit row s")
    with prod_row_fst [of isdigit row s] True have e: "e = None" by simp
    from Cons.IH [of s1] True show ?thesis
      by (simp add: rows_read_def r e)
  next
    case False
    then show ?thesis
      by (simp add: rows_read_def prod_row_long)
  qed
qed

lemma fast_loop_queued_read:
  "queued_teachers (snd (fast_loop R rows s)) =
     queued_teachers s @
       map (row_teacher fast_clean_phone) (filter (accepted fast_clean_phone) (rows_read rows))"
  "queued_links (snd (fast_loop R rows s)) =
     queued_links s @
       map (row_link fast_clean_phone) (filter (names_batch fast_clean_phone) (rows_read rows))"
  "queued_batches (snd (fast_loop R rows s)) =
     queued_batches s @ first_batches fast_clean_phone (unique_batches s) (rows_read rows)"
proof -
  from rows_read_short [of rows] have "fst (fast_loop R (rows_read rows) s) = None"
    by (auto simp: fast_loop_fst)
  then have "fast_loop R (rows_read rows) s = (None, snd (fast_loop R rows s))"
    by (simp add: prod_eq_iff fast_loop_read [of R rows s])
  from fast_loop_queued [OF this]
  show "queued_teachers (snd (fast_loop R rows s)) =
     queued_teachers s @
       map (row_teacher fast_clean_phone) (filter (accepted fast_clean_phone) (rows_read rows))"
    and "queued_links (snd (fast_loop R rows s)) =
     queued_links s @
       map (row_link fast_clean_phone) (filter (names_batch fast_clean_phone) (rows_read rows))"
    and "queued_batches (snd (fast_loop R rows s)) =
     queued_batches s @ first_batches fast_clean_phone (unique_batches s) (rows_read rows)"
    by simp_all
qed

lemma prod_loop_records_read:
  "teacher_records (snd (prod_loop isdigit rows s)) =
     teacher_records s @ map (row_teacher (clean_phone_number isdigit))
       (filter (accepted (clean_phone_number isdigit)) (rows_read rows))"
  "batch_teacher_records (snd (prod_loop isdigit rows s)) =
     batch_teacher_records s @ map (row_link (clean_phone_number isdigit))
       (filter (names_batch (clean_phone_number isdigit)) (rows_read rows))"
  "batch_values (batch_data (snd (prod_loop isdigit rows s))) =
     batch_values (batch_data s) @
       first_batches (clean_phone_number isdigit) (fst ` set (batch_data s)) (rows_read rows)"
proof -
  from rows_read_short [of rows] have "fst (prod_loop isdigit (rows_read rows) s) = None"
    by (auto simp: prod_loop_fst)
  then have "prod_loop isdigit (rows_read rows) s = (None, snd (prod_loop isdigit rows s))"
    by (simp add: prod_eq_iff prod_loop_read [of isdigit rows s])
  from prod_loop_records [OF this]
  show "teacher_records (snd (prod_loop isdigit rows s)) =
     teacher_records s @ map (row_teacher (clean_phone_number isdigit))
       (filter (accepted (clean_phone_number isdigit)) (rows_read rows))"
    and "batch_teacher_records (snd (prod_loop isdigit rows s)) =
     batch_teacher_records s @ map (row_link (clean_phone_number isdigit))
       (filter (names_batch (clean_phone_number isdigit)) (rows_read rows))"
    and "batch_values (batch_data (snd (prod_loop isdigit rows s))) =
     batch_values (batch_data s) @
       first_batches (clean_phone_number isdigit) (fst ` set (batch_data s)) (rows_read rows)"
    by simp_all
qed

section \<open>One batch tuple for a name\<close>

lemma queued_fast_init:
  "queued_teachers (fast_init (connect db)) = []"
  "queued_batches (fast_init (connect db)) = []"
  "queued_links (fast_init (connect db)) = []"
  "unique_batches (fast_init (connect db)) = {}"
  by (simp_all add: queued_defs chunks_defs fast_init_def connect_def)

lemma names_batch_find:
  "has_batch b \<Longrightarrow>
     (\<lambda>r. names_batch cleaner r \<and> r ! 1 = b) = (\<lambda>r. accepted cleaner r \<and> r ! 1 = b)"
  by (rule ext) (auto simp: names_batch_def)

text \<open>
  C3. Let \<open>b\<close> be a batch name that is not empty and not \<^verbatim>\<open>null\<close>. If \<open>first\<close> is
  the first accepted row among the rows read that names \<open>b\<close>, then over the whole
  loop exactly one batch tuple with the name \<open>b\<close> is queued, and it carries the
  district of \<open>first\<close> and its service type and training group (\<^verbatim>\<open>Primary\<close> where
  the field is empty); the number of link tuples queued for \<open>b\<close> is the number of
  accepted rows read that name \<open>b\<close>. In \<^verbatim>\<open>fast-import.py\<close> the queued tuples are
  those written in the loop and those still in the lists at its end; in
  \<^verbatim>\<open>production-import.py\<close> they are the tuples built from \<^verbatim>\<open>batch_data\<close> and the
  list \<^verbatim>\<open>batch_teacher_records\<close>. When no row has more than seven fields, every
  row is read and neither loop raises.
\<close>

theorem one_batch_per_name:
  assumes "has_batch b"
  shows "(\<forall>first. find (\<lambda>r. accepted fast_clean_phone r \<and> r ! 1 = b) (rows_read rows) =
                    Some first \<longrightarrow>
            filter (\<lambda>t. batch_key t = b)
                (queued_batches (snd (fast_loop R rows (fast_init (connect db))))) =
              [(b, first ! 0, ''Production Import'', or_primary (first ! 2),
                or_primary (first ! 3))]
          \<and> length (filter (\<lambda>l. fst l = b)
                (queued_links (snd (fast_loop R rows (fast_init (connect db)))))) =
              length (filter (\<lambda>r. accepted fast_clean_phone r \<and> r ! 1 = b) (rows_read rows)))
       \<and> (\<forall>first. find (\<lambda>r. accepted (clean_phone_number isdigit) r \<and> r ! 1 = b)
                      (rows_read rows) = Some first \<longrightarrow>
            filter (\<lambda>t. batch_key t = b)
                (batch_values (batch_data (snd (prod_loop isdigit rows prod_init)))) =
              [(b, first ! 0, ''Production Import'', or_primary (first ! 2),
                or_primary (first ! 3))]
          \<and> length (filter (\<lambda>l. fst l = b)
                (batch_teacher_records (snd (prod_loop isdigit rows prod_init)))) =
              length (filter (\<lambda>r. accepted (clean_phone_number isdigit) r \<and> r ! 1 = b)
                (rows_read rows)))
       \<and> ((\<forall>r\<in>set rows. length r \<le> 7) \<longrightarrow>
            rows_read rows = rows
          \<and> fst (fast_loop R rows (fast_init (connect db))) = None
          \<and> fst (prod_loop isdigit rows prod_init) = None)"
proof (intro conjI allI impI)
  fix first
  assume f: "find (\<lambda>r. accepted fast_clean_phone r \<and> r ! 1 = b) (rows_read rows) = Some first"
  then have b: "first ! 1 = b"
    by (auto simp: find_Some_iff)
  let ?s = "snd (fast_loop R rows (fast_init (connect db)))"
  note q = fast_loop_queued_read [of R rows "fast_init (connect db)",
      unfolded queued_fast_init append_Nil]
  from f have f': "find (\<lambda>r. names_batch fast_clean_phone r \<and> r ! 1 = b) (rows_read rows) =
      Some first"
    by (simp only: names_batch_find [OF assms])
  have "filter (\<lambda>t. batch_key t = b) (queued_batches ?s) = [row_batch first]"
    by (simp only: q first_batches_named f') simp
  then show "filter (\<lambda>t. batch_key t = b) (queued_batches ?s) =
             [(b, first ! 0, ''Production Import'', or_primary (first ! 2),
               or_primary (first ! 3))]"
    using b by (simp add: row_batch_def)
  show "length (filter (\<lambda>l. fst l = b) (queued_links ?s)) =
          length (filter (\<lambda>r. accepted fast_clean_phone r \<and> r ! 1 = b) (rows_read rows))"
    by (simp only: q links_named names_batch_find [OF assms])
next
  fix first
  let ?cl = "clean_phone_number isdigit"
  assume f: "find (\<lambda>r. accepted ?cl r \<and> r ! 1 = b) (rows_read rows) = Some first"
  then have b: "first ! 1 = b"
    by (auto simp: find_Some_iff)
  let ?s = "snd (prod_loop isdigit rows prod_init)"
  have i: "teacher_records prod_init = []" "batch_teacher_records prod_init = []"
    "batch_values (batch_data prod_init) = []" "fst ` set (batch_data prod_init) = {}"
    by (simp_all add: prod_init_def batch_values_def)
  note q = prod_loop_records_read [of isdigit rows prod_init, unfolded i append_Nil]
  from f have f': "find (\<lambda>r. names_batch ?cl r \<and> r ! 1 = b) (rows_read rows) = Some first"
    by (simp only: names_batch_find [OF assms])
  have "filter (\<lambda>t. batch_key t = b) (batch_values (batch_data ?s)) = [row_batch first]"
    by (simp only: q first_batches_named f') simp
  then show "filter (\<lambda>t. batch_key t = b) (batch_values (batch_data ?s)) =
             [(b, first ! 0, ''Production Import'', or_primary (first ! 2),
               or_primary (first ! 3))]"
    using b by (simp add: row_batch_def)
  show "length (filter (\<lambda>l. fst l = b) (batch_teacher_records ?s)) =
          length (filter (\<lambda>r. accepted ?cl r \<and> r ! 1 = b) (rows_read rows))"
    by (simp only: q links_named names_batch_find [OF assms])
next
  assume a: "\<forall>r\<in>set rows. length r \<le> 7"
  then show "rows_read rows = rows" by (rule rows_read_all)
  from a show "fst (fast_loop R rows (fast_init (connect db))) = None"
    by (auto simp: fast_loop_fst)
  from a show "fst (prod_loop isdigit rows prod_init) = None"
    by (auto simp: prod_loop_fst)
qed

theorem one_batch_per_name_witness:
  "filter (\<lambda>t. batch_key t = ''B1'')
      (queued_batches (snd (fast_loop accept_all [alice, bob] (fast_init (connect empty_store))))) =
     [(''B1'', ''D1'', ''Production Import'', ''Primary'', ''G1'')]
   \<and> length (filter (\<lambda>l. fst l = ''B1'')
      (queued_links (snd (fast_loop accept_all [alice, bob] (fast_init (connect empty_store)))))) = 2
   \<and> filter (\<lambda>t. batch_key t = ''B1'')
      (batch_values (batch_data (snd (prod_loop ascii_digit [alice, bob] prod_init)))) =
     [(''B1'', ''D1'', ''Production Import'', ''Primary'', ''G1'')]
   \<and> length (filter (\<lambda>l. fst l = ''B1'')
      (batch_teacher_records (snd (prod_loop ascii_digit [alice, bob] prod_init)))) = 2
   \<and> fst (fast_loop accept_all [alice, bob] (fast_init (connect empty_store))) = None"
proof -
  have h1: "has_batch ''B1''" by (simp add: has_batch_def)
  have h2: "\<forall>r\<in>set [alice, bob]. length r \<le> 7" by (simp add: alice_def bob_def)
  have rr: "rows_read [alice, bob] = [alice, bob]"
    by (simp add: rows_read_def alice_def bob_def)
  have h3: "find (\<lambda>r. accepted fast_clean_phone r \<and> r ! 1 = ''B1'') (rows_read [alice, bob]) =
      Some alice"
    unfolding rr by code_simp
  have h4: "length (filter (\<lambda>r. accepted fast_clean_phone r \<and> r ! 1 = ''B1'')
      (rows_read [alice, bob])) = 2"
    unfolding rr by code_simp
  have p3: "find (\<lambda>r. accepted (clean_phone_number ascii_digit) r \<and> r ! 1 = ''B1'')
      (rows_read [alice, bob]) = Some alice"
    unfolding rr by code_simp
  have p4: "length (filter (\<lambda>r. accepted (clean_phone_number ascii_digit) r \<and> r ! 1 = ''B1'')
      (rows_read [alice, bob])) = 2"
    unfolding rr by code_simp
  have h5: "alice ! 0 = ''D1''" "or_primary (alice ! 2) = ''Primary''"
    "or_primary (alice ! 3) = ''G1''"
    by (simp_all add: alice_def or_primary_def)
  note t = one_batch_per_name [OF h1, of "[alice, bob]" accept_all empty_store ascii_digit]
  note 1 = t [THEN conjunct1, rule_format, OF h3, unfolded h4 h5]
  note 2 = t [THEN conjunct2, THEN conjunct1, rule_format, OF p3, unfolded p4 h5]
  note 3 = t [THEN conjunct2, THEN conjunct2, THEN mp, OF h2]
  from 1 2 3 show ?thesis by (elim conjE) (intro conjI)
qed

text \<open>
  C5. Whatever the store holds before the first run, whatever the file is and whichever
  tuples the store refuses: a second run of the same script on the same file, started on
  the store the first run left, ends with the same exit status, makes the same calls and
  leaves the store exactly as the first run left it. So no row is added, and the three
  row counts are those of the first run. This holds for both scripts; an empty store
  before the first run is one case of it.
\<close>

theorem reimport_changes_nothing:
  "import_data R w (store_after (import_data R w db)) = import_data R w db
   \<and> row_counts (store_after (import_data R w (store_after (import_data R w db)))) =
       row_counts (store_after (import_data R w db))
   \<and> import_production_data isdigit R w
         (store_after (import_production_data isdigit R w db)) =
       import_production_data isdigit R w db
   \<and> row_counts (store_after (import_production_data isdigit R w
         (store_after (import_production_data isdigit R w db)))) =
       row_counts (store_after (import_production_data isdigit R w db))"
  by (simp only: import_data_again import_production_data_again simp_thms)

theorem reimport_changes_nothing_witness:
  "row_counts (store_after (import_data accept_all
      \<lparr>reachable = True, csv_file = Some [header_row, alice, bob]\<rparr> empty_store)) = (1, 1, 1)
   \<and> row_counts (store_after (import_data accept_all
      \<lparr>reachable = True, csv_file = Some [header_row, alice, bob]\<rparr>
      (store_after (import_data accept_all
         \<lparr>reachable = True, csv_file = Some [header_row, alice, bob]\<rparr> empty_store)))) = (1, 1, 1)"
proof -
  have 1: "row_counts (store_after (import_data accept_all
      \<lparr>reachable = True, csv_file = Some [header_row, alice, bob]\<rparr> empty_store)) = (1, 1, 1)"
    by code_simp
  from reimport_changes_nothing [of accept_all
      "\<lparr>reachable = True, csv_file = Some [header_row, alice, bob]\<rparr>" empty_store ascii_digit]
  have "row_counts (store_after (import_data accept_all
      \<lparr>reachable = True, csv_file = Some [header_row, alice, bob]\<rparr>
      (store_after (import_data accept_all
         \<lparr>reachable = True, csv_file = Some [header_row, alice, bob]\<rparr> empty_store)))) =
      row_counts (store_after (import_data accept_all
      \<lparr>reachable = True, csv_file = Some [header_row, alice, bob]\<rparr> empty_store))"
    by (elim conjE)
  with 1 show ?thesis by simp
qed

section \<open>What one accepted row queues\<close>

text \<open>
  C8. A row of seven fields whose phone number is accepted adds exactly one teacher tuple
  to what is queued, and exactly one link tuple if its batch name is not empty and not
  \<^verbatim>\<open>null\<close>, none otherwise. This holds from every state of the loop, so it does
  not depend on the batch names seen before. In \<^verbatim>\<open>fast-import.py\<close> what is queued
  is what was written in the loop and what is still in the lists (a flush in the same
  round may already have written the new tuple).
\<close>

theorem teacher_and_link_per_row:
  "(fast_clean_phone phone_number = Some mobile \<longrightarrow>
      (\<exists>s'. fast_row R [district, batch_name, service_type, training_group, teacher_id,
                         teacher_name, phone_number] s = (None, s')
          \<and> queued_teachers s' = queued_teachers s @
                [(clean_teacher_id teacher_id, teacher_name, mobile, district,
                  or_primary service_type, or_primary training_group)]
          \<and> queued_links s' = queued_links s @
                (if has_batch batch_name then [(batch_name, mobile, teacher_name, district)]
                 else [])))
   \<and> (clean_phone_number isdigit phone_number = Some mobile \<longrightarrow>
      (\<exists>ps'. prod_row isdigit [district, batch_name, service_type, training_group, teacher_id,
                                teacher_name, phone_number] ps = (None, ps')
          \<and> teacher_records ps' = teacher_records ps @
                [(clean_teacher_id teacher_id, teacher_name, mobile, district,
                  or_primary service_type, or_primary training_group)]
          \<and> batch_teacher_records ps' = batch_teacher_records ps @
                (if has_batch batch_name then [(batch_name, mobile, teacher_name, district)]
                 else [])))"
  by (simp add: fast_row_seven prod_row_seven fast_flush_queued fast_queue_queued
      prod_queue_records)

theorem teacher_and_link_per_row_witness:
  "(\<exists>s'. fast_row accept_all alice
            ((fast_init (connect empty_store))\<lparr>unique_batches := {''B1''}\<rparr>) = (None, s')
       \<and> queued_teachers s' = [(Some ''T1'', ''Alice'', ''9876543210'', ''D1'', ''Primary'', ''G1'')]
       \<and> queued_links s' = [(''B1'', ''9876543210'', ''Alice'', ''D1'')])
   \<and> (\<exists>s'. fast_row accept_all
            [''D1'', ''null'', ''Primary'', ''G1'', ''T1'', ''Alice'', ''(98) 765-43210x9'']
            (fast_init (connect empty_store)) = (None, s')
       \<and> queued_teachers s' = [(Some ''T1'', ''Alice'', ''9876543210'', ''D1'', ''Primary'', ''G1'')]
       \<and> queued_links s' = [])
   \<and> (\<exists>ps'. prod_row ascii_digit alice prod_init = (None, ps')
       \<and> teacher_records ps' = [(Some ''T1'', ''Alice'', ''9876543210'', ''D1'', ''Primary'', ''G1'')]
       \<and> batch_teacher_records ps' = [(''B1'', ''9876543210'', ''Alice'', ''D1'')])"
proof -
  let ?s = "(fast_init (connect empty_store))\<lparr>unique_batches := {''B1''}\<rparr>"
  have q: "queued_teachers ?s = []" "queued_links ?s = []"
    "queued_teachers (fast_init (connect empty_store)) = []"
    "queued_links (fast_init (connect empty_store)) = []"
    "teacher_records prod_init = []" "batch_teacher_records prod_init = []"
    by (simp_all add: queued_defs chunks_defs fast_init_def connect_def prod_init_def)
  have v: "clean_teacher_id ''T1'' = Some ''T1''" "or_primary ''Primary'' = ''Primary''"
    "or_primary ''G1'' = ''G1''" "has_batch ''B1''" "\<not> has_batch ''null''"
    by (simp_all add: clean_teacher_id_def or_primary_def has_batch_def)
  note t = teacher_and_link_per_row [of "''(98) 765-43210x9''" "''9876543210''" accept_all
      "''D1''" "''B1''" "''Primary''" "''G1''" "''T1''" "''Alice''" ?s ascii_digit prod_init]
  from t alice_mobile(1)
  have 1: "\<exists>s'. fast_row accept_all alice ?s = (None, s')
       \<and> queued_teachers s' = [(Some ''T1'', ''Alice'', ''9876543210'', ''D1'', ''Primary'', ''G1'')]
       \<and> queued_links s' = [(''B1'', ''9876543210'', ''Alice'', ''D1'')]"
    by (simp only: alice_def q v append_Nil if_True simp_thms)
  from teacher_and_link_per_row [of "''(98) 765-43210x9''" "''9876543210''" accept_all
      "''D1''" "''null''" "''Primary''" "''G1''" "''T1''" "''Alice''"
      "fast_init (connect empty_store)" ascii_digit prod_init]
    alice_mobile(1)
  have 2: "\<exists>s'. fast_row accept_all
            [''D1'', ''null'', ''Primary'', ''G1'', ''T1'', ''Alice'', ''(98) 765-43210x9'']
            (fast_init (connect empty_store)) = (None, s')
       \<and> queued_teachers s' = [(Some ''T1'', ''Alice'', ''9876543210'', ''D1'', ''Primary'', ''G1'')]
       \<and> queued_links s' = []"
    by (simp only: q v append_Nil if_False simp_thms)
  from t alice_mobile(2)
  have 3: "\<exists>ps'. prod_row ascii_digit alice prod_init = (None, ps')
       \<and> teacher_records ps' = [(Some ''T1'', ''Alice'', ''9876543210'', ''D1'', ''Primary'', ''G1'')]
       \<and> batch_teacher_records ps' = [(''B1'', ''9876543210'', ''Alice'', ''D1'')]"
    by (simp only: alice_def q v append_Nil if_True simp_thms)
  from 1 2 3 show ?thesis by (intro conjI)
qed

lemma executemany_teachers_distinct:
  "distinct (map teacher_key (teachers (working c))) \<Longrightarrow>
     distinct (map teacher_key (teachers (working (snd (executemany_teachers R chunk c)))))"
  by (simp add: executemany_teachers_eq insert_many_distinct)

text \<open>
  C10. Neither script looks at the teachers already buffered: an accepted row appends
  its teacher tuple to the teacher list whatever the list holds, so over a loop the
  teacher tuples queued are those of all accepted rows read, in order, repeated
  mobiles included. The store is what keeps mobiles unique: an insert whose mobile is
  present leaves the table as it is, and a bulk insert keeps the mobiles of the table
  distinct.
\<close>

theorem teachers_unique_in_store_only:
  "teacher_batch (fast_queue district batch_name service_type training_group teacher_id
       teacher_name mobile s) =
     teacher_batch s @ [(clean_teacher_id teacher_id, teacher_name, mobile, district,
                         or_primary service_type, or_primary training_group)]
   \<and> teacher_records (prod_queue district batch_name service_type training_group teacher_id
       teacher_name mobile ps) =
     teacher_records ps @ [(clean_teacher_id teacher_id, teacher_name, mobile, district,
                            or_primary service_type, or_primary training_group)]
   \<and> queued_teachers (snd (fast_loop R rows s)) =
       queued_teachers s @
         map (row_teacher fast_clean_phone) (filter (accepted fast_clean_phone) (rows_read rows))
   \<and> teacher_records (snd (prod_loop isdigit rows ps)) =
       teacher_records ps @
         map (row_teacher (clean_phone_number isdigit))
           (filter (accepted (clean_phone_number isdigit)) (rows_read rows))
   \<and> (teacher_key t \<in> teacher_key ` set tbl \<longrightarrow> insert_skip teacher_key t tbl = tbl)
   \<and> (distinct (map teacher_key (teachers (working c))) \<longrightarrow>
        distinct (map teacher_key (teachers (working (snd (executemany_teachers R chunk c))))))"
proof -
  have 1: "teacher_batch (fast_queue district batch_name service_type training_group teacher_id
       teacher_name mobile s) =
     teacher_batch s @ [(clean_teacher_id teacher_id, teacher_name, mobile, district,
                         or_primary service_type, or_primary training_group)]"
    by (simp add: fast_queue_def Let_def)
  have 5: "teacher_key t \<in> teacher_key ` set tbl \<longrightarrow> insert_skip teacher_key t tbl = tbl"
    by (simp add: insert_skip_def)
  have 6: "distinct (map teacher_key (teachers (working c))) \<longrightarrow>
        distinct (map teacher_key (teachers (working (snd (executemany_teachers R chunk c)))))"
    using executemany_teachers_distinct [of c R chunk] by blast
  from 1 prod_queue_records(1) [of district batch_name service_type training_group teacher_id
      teacher_name mobile ps] fast_loop_queued_read(1) [of R rows s]
    prod_loop_records_read(1) [of isdigit rows ps] 5 6
  show ?thesis by (intro conjI)
qed

theorem teachers_unique_in_store_only_witness:
  "teacher_batch (fast_queue ''D2'' ''B1'' [] ''G2'' ''null'' ''Bob'' ''9876543210''
      ((fast_init (connect empty_store))
         \<lparr>teacher_batch := [(Some ''T1'', ''Alice'', ''9876543210'', ''D1'', ''Primary'', ''G1'')]\<rparr>)) =
     [(Some ''T1'', ''Alice'', ''9876543210'', ''D1'', ''Primary'', ''G1''),
      (None, ''Bob'', ''9876543210'', ''D2'', ''Primary'', ''G2'')]
   \<and> queued_teachers (snd (fast_loop accept_all [alice, bob] (fast_init (connect empty_store)))) =
     [(Some ''T1'', ''Alice'', ''9876543210'', ''D1'', ''Primary'', ''G1''),
      (None, ''Bob'', ''9876543210'', ''D2'', ''Primary'', ''G2'')]
   \<and> teacher_records (snd (prod_loop ascii_digit [alice, bob] prod_init)) =
     [(Some ''T1'', ''Alice'', ''9876543210'', ''D1'', ''Primary'', ''G1''),
      (None, ''Bob'', ''9876543210'', ''D2'', ''Primary'', ''G2'')]
   \<and> insert_skip teacher_key (None, ''Bob'', ''9876543210'', ''D2'', ''Primary'', ''G2'')
       [(Some ''T1'', ''Alice'', ''9876543210'', ''D1'', ''Primary'', ''G1'')] =
     [(Some ''T1'', ''Alice'', ''9876543210'', ''D1'', ''Primary'', ''G1'')]
   \<and> distinct (map teacher_key (teachers (working (snd (executemany_teachers accept_all
       [(Some ''T1'', ''Alice'', ''9876543210'', ''D1'', ''Primary'', ''G1''),
        (None, ''Bob'', ''9876543210'', ''D2'', ''Primary'', ''G2'')] (connect empty_store))))))"
proof -
  let ?a = "(Some ''T1'', ''Alice'', ''9876543210'', ''D1'', ''Primary'', ''G1'')"
  let ?b = "(None, ''Bob'', ''9876543210'', ''D2'', ''Primary'', ''G2'')"
  let ?s = "(fast_init (connect empty_store))\<lparr>teacher_batch := [?a]\<rparr>"
  let ?init = "fast_init (connect empty_store)"
  let ?after = "snd (fast_loop accept_all [alice, bob] ?init)"
  let ?pafter = "snd (prod_loop ascii_digit [alice, bob] prod_init)"
  note t = teachers_unique_in_store_only [of "''D2''" "''B1''" "[]" "''G2''" "''null''"
      "''Bob''" "''9876543210''" ?s prod_init accept_all "[alice, bob]" ascii_digit
      ?b "[?a]" "connect empty_store" "[?a, ?b]"]
  note u = teachers_unique_in_store_only [of "''D2''" "''B1''" "[]" "''G2''" "''null''"
      "''Bob''" "''9876543210''" ?init prod_init accept_all "[alice, bob]" ascii_digit
      ?b "[?a]" "connect empty_store" "[?a, ?b]"]
  have v: "clean_teacher_id ''null'' = None" "or_primary [] = ''Primary''"
    "or_primary ''G2'' = ''G2''"
    by (simp_all add: clean_teacher_id_def or_primary_def)
  have k: "teacher_key ?b \<in> teacher_key ` set [?a]"
    by (simp add: teacher_key_def)
  from t have 1: "teacher_batch (fast_queue ''D2'' ''B1'' [] ''G2'' ''null'' ''Bob''
      ''9876543210'' ?s) = teacher_batch ?s @ [(clean_teacher_id ''null'', ''Bob'',
      ''9876543210'', ''D2'', or_primary [], or_primary ''G2'')]"
    by (rule conjunct1)
  have rr: "rows_read [alice, bob] = [alice, bob]"
    by (simp add: rows_read_def alice_def bob_def)
  have e1: "map (row_teacher fast_clean_phone) (filter (accepted fast_clean_phone) [alice, bob]) =
      [?a, ?b]"
    by code_simp
  have e2: "map (row_teacher (clean_phone_number ascii_digit))
      (filter (accepted (clean_phone_number ascii_digit)) [alice, bob]) = [?a, ?b]"
    by code_simp
  from u have "queued_teachers ?after = queued_teachers ?init @
          map (row_teacher fast_clean_phone)
            (filter (accepted fast_clean_phone) (rows_read [alice, bob]))"
    by (elim conjE)
  then have 3: "queued_teachers ?after = [?a, ?b]"
    by (simp only: rr e1 queued_fast_init append_Nil)
  from t have "teacher_records ?pafter = teacher_records prod_init @
          map (row_teacher (clean_phone_number ascii_digit))
            (filter (accepted (clean_phone_number ascii_digit)) (rows_read [alice, bob]))"
    by (elim conjE)
  then have 4: "teacher_records ?pafter = [?a, ?b]"
    by (simp only: rr e2) (simp add: prod_init_def)
  from t have "teacher_key ?b \<in> teacher_key ` set [?a] \<longrightarrow>
      insert_skip teacher_key ?b [?a] = [?a]"
    by (elim conjE)
  with k have 5: "insert_skip teacher_key ?b [?a] = [?a]"
    by (rule rev_mp)
  have d: "distinct (map teacher_key (teachers (working (connect empty_store))))"
    by (simp add: connect_def empty_store_def)
  from t have "distinct (map teacher_key (teachers (working (connect empty_store)))) \<longrightarrow>
        distinct (map teacher_key (teachers (working (snd (executemany_teachers accept_all
          [?a, ?b] (connect empty_store))))))"
    by (elim conjE)
  with d have 6: "distinct (map teacher_key (teachers (working (snd (executemany_teachers
     accept_all [?a, ?b] (connect empty_store))))))"
    by (rule rev_mp)
  from 1 have 1: "teacher_batch (fast_queue ''D2'' ''B1'' [] ''G2'' ''null'' ''Bob''
      ''9876543210'' ?s) = [?a, ?b]"
    by (simp add: v)
  from 1 3 4 5 6 show ?thesis by (intro conjI)
qed

section \<open>How a run of \<^verbatim>\<open>production-import.py\<close> ends\<close>

lemma prod_writes_exec_fun: "prod_writes R s = exec_calls R (prod_calls s)"
  by (rule ext) (rule prod_writes_exec)

lemma fast_final_writes_exec_fun: "fast_final_writes R s = exec_calls R (final_calls s)"
  by (rule ext) (rule fast_final_writes_exec)

lemma finish_committed_ok:
  "fst (W c) = None \<Longrightarrow> committed (settle (finish W c)) = working (snd (W c))"
  by (cases "W c") (simp add: finish_def settle_def commit_def)

lemma store_op_exec_prod: "store_op (exec_calls R (prod_calls s))"
  using store_op_prod_writes [of R s] by (simp only: prod_writes_exec_fun)

lemma store_op_exec_final: "store_op (exec_calls R (final_calls s))"
  using store_op_fast_final_writes [of R s] by (simp only: fast_final_writes_exec_fun)

lemma import_production_data_written:
  assumes "reachable w" and "csv_file w = Some (header # rows)"
    and "prod_loop isdigit rows prod_init = (None, ps)"
  shows "import_production_data isdigit R w db =
     (if \<exists>k\<in>set (prod_calls ps). call_bad R k
      then \<lparr>exit_status = 1, store_after = db,
            trace = attempted R (prod_calls ps) @ [Rollback]\<rparr>
      else \<lparr>exit_status = 0,
            store_after = working (snd (exec_calls R (prod_calls ps) (connect db))),
            trace = prod_calls ps @ [Commit]\<rparr>)"
proof -
  let ?W = "exec_calls R (prod_calls ps)"
  have b: "prod_body isdigit R (csv_file w) (connect db) = finish ?W (connect db)"
    using assms(2,3) by (simp add: prod_body_def prod_write_finish prod_writes_exec_fun)
  have c0: "calls (connect db) = []" "committed (connect db) = db"
    by (simp_all add: connect_def)
  show ?thesis
  proof (cases "\<exists>k\<in>set (prod_calls ps). call_bad R k")
    case True
    then have "fst (?W (connect db)) \<noteq> None"
      by (simp add: exec_calls_fst)
    from finish_failed [of ?W "connect db", OF store_op_exec_prod this] True assms(1)
    show ?thesis
      by (simp add: import_production_data_settle b finish_exec_fst finish_exec_calls c0)
  next
    case False
    then have "fst (?W (connect db)) = None"
      by (simp add: exec_calls_fst)
    from finish_committed_ok [of ?W "connect db", OF this] False assms(1) show ?thesis
      by (simp add: import_production_data_settle b finish_exec_fst finish_exec_calls c0
          attempted_all)
  qed
qed

lemma import_production_data_unread:
  assumes "\<not> (reachable w \<and>
     (\<exists>header rows ps. csv_file w = Some (header # rows) \<and>
        prod_loop isdigit rows prod_init = (None, ps)))"
  shows "exit_status (import_production_data isdigit R w db) = 1
       \<and> store_after (import_production_data isdigit R w db) = db
       \<and> trace (import_production_data isdigit R w db) =
           (if reachable w then [Rollback] else [])"
proof (cases "reachable w")
  case False
  then show ?thesis by (simp add: import_production_data_def)
next
  case True
  show ?thesis
  proof (cases "csv_file w")
    case None
    with True show ?thesis
      by (simp add: import_production_data_def prod_body_def rollback_def connect_def)
  next
    case (Some all_rows)
    show ?thesis
    proof (cases all_rows)
      case Nil
      with True Some show ?thesis
        by (simp add: import_production_data_def prod_body_def rollback_def connect_def)
    next
      case (Cons header rows)
      obtain e ps where l: "prod_loop isdigit rows prod_init = (e, ps)"
        by (cases "prod_loop isdigit rows prod_init")
      with assms True Some Cons obtain a where "e = Some a"
        by (cases e) auto
      with l True Some Cons show ?thesis
        by (simp add: import_production_data_def prod_body_def rollback_def connect_def)
    qed
  qed
qed

lemma prod_calls_no_commit: "Commit \<notin> set (prod_calls ps)" "Rollback \<notin> set (prod_calls ps)"
  by (auto simp: prod_calls_def)

lemma attempted_no_commit: "Commit \<notin> set ks \<Longrightarrow> Commit \<notin> set (attempted R ks)"
  using attempted_subset [of R ks] by blast

text \<open>
  C9. In \<^verbatim>\<open>production-import.py\<close> the exit status is 0 exactly when a commit was
  made. If a commit was made, the file was read to its end, no bulk insert raised, and
  the calls of the run are all bulk inserts for the three tables followed by the one
  commit, which is the last call. If no commit was made, the exit status is 1, the store
  is what it was before the run, and (when the connection was made at all) the last call
  is the rollback of the handler.
\<close>

theorem production_all_or_nothing:
  "(exit_status (import_production_data isdigit R w db) = 0 \<longleftrightarrow>
      Commit \<in> set (trace (import_production_data isdigit R w db)))
   \<and> (Commit \<in> set (trace (import_production_data isdigit R w db)) \<longrightarrow>
        (\<exists>header rows ps.
            csv_file w = Some (header # rows)
          \<and> prod_loop isdigit rows prod_init = (None, ps)
          \<and> (\<forall>k\<in>set (prod_calls ps). \<not> call_bad R k)
          \<and> Commit \<notin> set (prod_calls ps)
          \<and> trace (import_production_data isdigit R w db) = prod_calls ps @ [Commit]))
   \<and> (Commit \<notin> set (trace (import_production_data isdigit R w db)) \<longrightarrow>
          exit_status (import_production_data isdigit R w db) = 1
        \<and> store_after (import_production_data isdigit R w db) = db
        \<and> (reachable w \<longrightarrow>
             trace (import_production_data isdigit R w db) \<noteq> []
           \<and> last (trace (import_production_data isdigit R w db)) = Rollback))"
proof (cases "reachable w \<and>
     (\<exists>header rows ps. csv_file w = Some (header # rows) \<and>
        prod_loop isdigit rows prod_init = (None, ps))")
  case False
  from import_production_data_unread [OF False, of R db] show ?thesis
    by simp
next
  case True
  then obtain header rows ps where up: "reachable w"
    and f: "csv_file w = Some (header # rows)"
    and l: "prod_loop isdigit rows prod_init = (None, ps)"
    by blast
  note o = import_production_data_written [OF up f l, of R db]
  show ?thesis
  proof (cases "\<exists>k\<in>set (prod_calls ps). call_bad R k")
    case bad: True
    from attempted_no_commit [OF prod_calls_no_commit(1), of R ps]
    have "Commit \<notin> set (attempted R (prod_calls ps))" .
    with bad up show ?thesis
      by (simp add: o)
  next
    case ok: False
    with f l show ?thesis
      by (simp add: o prod_calls_no_commit)
  qed
qed

theorem production_all_or_nothing_witness:
  "Commit \<in> set (trace (import_production_data ascii_digit accept_all
      \<lparr>reachable = True, csv_file = Some [header_row, alice]\<rparr> empty_store))
   \<and> (\<exists>header rows ps.
         Some [header_row, alice] = Some (header # rows)
       \<and> prod_loop ascii_digit rows prod_init = (None, ps)
       \<and> trace (import_production_data ascii_digit accept_all
            \<lparr>reachable = True, csv_file = Some [header_row, alice]\<rparr> empty_store) =
          prod_calls ps @ [Commit])
   \<and> exit_status (import_production_data ascii_digit refuse_teachers
      \<lparr>reachable = True, csv_file = Some [header_row, alice]\<rparr> empty_store) = 1
   \<and> store_after (import_production_data ascii_digit refuse_teachers
      \<lparr>reachable = True, csv_file = Some [header_row, alice]\<rparr> empty_store) = empty_store
   \<and> last (trace (import_production_data ascii_digit refuse_teachers
      \<lparr>reachable = True, csv_file = Some [header_row, alice]\<rparr> empty_store)) = Rollback"
proof -
  let ?w = "\<lparr>reachable = True, csv_file = Some [header_row, alice]\<rparr>"
  have 1: "exit_status (import_production_data ascii_digit accept_all ?w empty_store) = 0"
    by code_simp
  have 2: "exit_status (import_production_data ascii_digit refuse_teachers ?w empty_store) \<noteq> 0"
    by code_simp
  note a = production_all_or_nothing [of ascii_digit accept_all ?w empty_store]
  note b = production_all_or_nothing [of ascii_digit refuse_teachers ?w empty_store]
  from a 1 have 3: "Commit \<in> set (trace (import_production_data ascii_digit accept_all ?w
      empty_store))"
    by blast
  from a have "Commit \<in> set (trace (import_production_data ascii_digit accept_all ?w
      empty_store)) \<longrightarrow>
        (\<exists>header rows ps.
            csv_file ?w = Some (header # rows)
          \<and> prod_loop ascii_digit rows prod_init = (None, ps)
          \<and> (\<forall>k\<in>set (prod_calls ps). \<not> call_bad accept_all k)
          \<and> Commit \<notin> set (prod_calls ps)
          \<and> trace (import_production_data ascii_digit accept_all ?w empty_store) =
              prod_calls ps @ [Commit])"
    by (elim conjE)
  with 3 have "\<exists>header rows ps.
            csv_file ?w = Some (header # rows)
          \<and> prod_loop ascii_digit rows prod_init = (None, ps)
          \<and> (\<forall>k\<in>set (prod_calls ps). \<not> call_bad accept_all k)
          \<and> Commit \<notin> set (prod_calls ps)
          \<and> trace (import_production_data ascii_digit accept_all ?w empty_store) =
              prod_calls ps @ [Commit]"
    by (rule rev_mp)
  then have 4: "\<exists>header rows ps.
         Some [header_row, alice] = Some (header # rows)
       \<and> prod_loop ascii_digit rows prod_init = (None, ps)
       \<and> trace (import_production_data ascii_digit accept_all ?w empty_store) =
          prod_calls ps @ [Commit]"
    by auto
  from b 2 have n: "Commit \<notin> set (trace (import_production_data ascii_digit refuse_teachers ?w
      empty_store))"
    by blast
  from b have "Commit \<notin> set (trace (import_production_data ascii_digit refuse_teachers ?w
      empty_store)) \<longrightarrow>
          exit_status (import_production_data ascii_digit refuse_teachers ?w empty_store) = 1
        \<and> store_after (import_production_data ascii_digit refuse_teachers ?w empty_store) =
            empty_store
        \<and> (reachable ?w \<longrightarrow>
             trace (import_production_data ascii_digit refuse_teachers ?w empty_store) \<noteq> []
           \<and> last (trace (import_production_data ascii_digit refuse_teachers ?w empty_store)) =
               Rollback)"
    by (elim conjE)
  with n have "exit_status (import_production_data ascii_digit refuse_teachers ?w empty_store) = 1
        \<and> store_after (import_production_data ascii_digit refuse_teachers ?w empty_store) =
            empty_store
        \<and> (reachable ?w \<longrightarrow>
             trace (import_production_data ascii_digit refuse_teachers ?w empty_store) \<noteq> []
           \<and> last (trace (import_production_data ascii_digit refuse_teachers ?w empty_store)) =
               Rollback)"
    by (rule rev_mp)
  then have 5: "exit_status (import_production_data ascii_digit refuse_teachers ?w empty_store) = 1"
    and 6: "store_after (import_production_data ascii_digit refuse_teachers ?w empty_store) =
            empty_store"
    and 7: "last (trace (import_production_data ascii_digit refuse_teachers ?w empty_store)) =
               Rollback"
    by simp_all
  from 3 4 5 6 7 show ?thesis by (intro conjI)
qed

section \<open>A bulk insert that raises\<close>

lemma flush_teachers_failed:
  "batch_size \<le> length (teacher_batch s) \<Longrightarrow> chunk_bad (teacher_bad R) (teacher_batch s) \<Longrightarrow>
     flush_teachers R s =
       s\<lparr>teacher_batch := [],
         conn := (conn s)\<lparr>working := committed (conn s),
                   calls := calls (conn s) @ [InsertTeachers (teacher_batch s), Rollback]\<rparr>\<rparr>"
  by (simp add: flush_teachers_eq rollback_def executemany_teachers_eq)

lemma flush_batches_failed:
  "50 \<le> length (batch_batch s) \<Longrightarrow> chunk_bad (batch_bad R) (batch_batch s) \<Longrightarrow>
     flush_batches R s =
       s\<lparr>batch_batch := [],
         conn := (conn s)\<lparr>working := committed (conn s),
                   calls := calls (conn s) @ [InsertBatches (batch_batch s), Rollback]\<rparr>\<rparr>"
  by (simp add: flush_batches_eq rollback_def executemany_batches_eq)

lemma flush_links_failed:
  "batch_size \<le> length (batch_teacher_batch s) \<Longrightarrow>
   chunk_bad (link_bad R) (batch_teacher_batch s) \<Longrightarrow>
     flush_links R s =
       s\<lparr>batch_teacher_batch := [],
         conn := (conn s)\<lparr>working := committed (conn s),
                   calls := calls (conn s) @ [InsertLinks (batch_teacher_batch s), Rollback]\<rparr>\<rparr>"
  by (simp add: flush_links_eq rollback_def executemany_links_eq)

text \<open>
  C1 fails in \<^verbatim>\<open>production-import.py\<close>, which has one transaction and no
  \<^verbatim>\<open>try\<close> around a bulk insert: when the store refuses the batch chunk, the
  handler of the function rolls back and exits, and the teacher and link chunks are never
  attempted. It also fails in the final flush of \<^verbatim>\<open>fast-import.py\<close>: when the
  store refuses the last teacher chunk, the batch and link chunks are not attempted.
\<close>

theorem chunk_isolation_counterexample:
  "import_production_data ascii_digit refuse_batches
      \<lparr>reachable = True, csv_file = Some [header_row, alice]\<rparr> empty_store =
     \<lparr>exit_status = 1, store_after = empty_store,
      trace = [InsertBatches [(''B1'', ''D1'', ''Production Import'', ''Primary'', ''G1'')],
               Rollback]\<rparr>
   \<and> import_data refuse_teachers
      \<lparr>reachable = True, csv_file = Some [header_row, alice]\<rparr> empty_store =
     \<lparr>exit_status = 0, store_after = empty_store,
      trace = [InsertTeachers
                 [(Some ''T1'', ''Alice'', ''9876543210'', ''D1'', ''Primary'', ''G1'')],
               Rollback]\<rparr>"
  by code_simp

text \<open>
  C1, as amended. Inside the loop of \<^verbatim>\<open>fast-import.py\<close>, a flush whose bulk
  insert raises a data-level error empties the list of that chunk, rolls the transaction
  back to the last commit and logs the insert and the rollback; nothing else of the state
  changes, so the committed tables and the other two lists are kept. The loop never ends
  on such an error: it reads every row unless a row has more than 7 fields. In
  \<^verbatim>\<open>production-import.py\<close> the first bulk insert that raises ends the run: the
  calls made are the inserts up to that one and the rollback, the store is what it was
  before the run and the exit status is 1.
\<close>

theorem chunk_failure_in_loop_isolated:
  "(batch_size \<le> length (teacher_batch s) \<and> chunk_bad (teacher_bad R) (teacher_batch s) \<longrightarrow>
      flush_teachers R s =
        s\<lparr>teacher_batch := [],
          conn := (conn s)\<lparr>working := committed (conn s),
                    calls := calls (conn s) @ [InsertTeachers (teacher_batch s), Rollback]\<rparr>\<rparr>)
   \<and> (50 \<le> length (batch_batch s) \<and> chunk_bad (batch_bad R) (batch_batch s) \<longrightarrow>
      flush_batches R s =
        s\<lparr>batch_batch := [],
          conn := (conn s)\<lparr>working := committed (conn s),
                    calls := calls (conn s) @ [InsertBatches (batch_batch s), Rollback]\<rparr>\<rparr>)
   \<and> (batch_size \<le> length (batch_teacher_batch s) \<and>
       chunk_bad (link_bad R) (batch_teacher_batch s) \<longrightarrow>
      flush_links R s =
        s\<lparr>batch_teacher_batch := [],
          conn := (conn s)\<lparr>working := committed (conn s),
                    calls := calls (conn s) @ [InsertLinks (batch_teacher_batch s), Rollback]\<rparr>\<rparr>)
   \<and> fst (fast_loop R rows s) =
       (if \<exists>r\<in>set rows. 7 < length r then Some ValueError else None)
   \<and> (reachable w \<and> csv_file w = Some (header # rows)
       \<and> prod_loop isdigit rows prod_init = (None, ps)
       \<and> (\<exists>k\<in>set (prod_calls ps). call_bad R k) \<longrightarrow>
         import_production_data isdigit R w db =
           \<lparr>exit_status = 1, store_after = db,
            trace = attempted R (prod_calls ps) @ [Rollback]\<rparr>
       \<and> call_bad R (last (attempted R (prod_calls ps))))"
proof -
  have 5: "reachable w \<and> csv_file w = Some (header # rows)
       \<and> prod_loop isdigit rows prod_init = (None, ps)
       \<and> (\<exists>k\<in>set (prod_calls ps). call_bad R k) \<longrightarrow>
         import_production_data isdigit R w db =
           \<lparr>exit_status = 1, store_after = db,
            trace = attempted R (prod_calls ps) @ [Rollback]\<rparr>
       \<and> call_bad R (last (attempted R (prod_calls ps)))"
  proof (intro impI, elim conjE)
    assume a: "reachable w" "csv_file w = Some (header # rows)"
      "prod_loop isdigit rows prod_init = (None, ps)"
      and b: "\<exists>k\<in>set (prod_calls ps). call_bad R k"
    from import_production_data_written [OF a, of R db] b attempted_bad_last [OF b]
    show "import_production_data isdigit R w db =
           \<lparr>exit_status = 1, store_after = db,
            trace = attempted R (prod_calls ps) @ [Rollback]\<rparr>
       \<and> call_bad R (last (attempted R (prod_calls ps)))"
      by simp
  qed
  have 1: "batch_size \<le> length (teacher_batch s) \<and> chunk_bad (teacher_bad R) (teacher_batch s) \<longrightarrow>
      flush_teachers R s =
        s\<lparr>teacher_batch := [],
          conn := (conn s)\<lparr>working := committed (conn s),
                    calls := calls (conn s) @ [InsertTeachers (teacher_batch s), Rollback]\<rparr>\<rparr>"
    using flush_teachers_failed [of s R] by blast
  have 2: "50 \<le> length (batch_batch s) \<and> chunk_bad (batch_bad R) (batch_batch s) \<longrightarrow>
      flush_batches R s =
        s\<lparr>batch_batch := [],
          conn := (conn s)\<lparr>working := committed (conn s),
                    calls := calls (conn s) @ [InsertBatches (batch_batch s), Rollback]\<rparr>\<rparr>"
    using flush_batches_failed [of s R] by blast
  have 3: "batch_size \<le> length (batch_teacher_batch s) \<and>
       chunk_bad (link_bad R) (batch_teacher_batch s) \<longrightarrow>
      flush_links R s =
        s\<lparr>batch_teacher_batch := [],
          conn := (conn s)\<lparr>working := committed (conn s),
                    calls := calls (conn s) @ [InsertLinks (batch_teacher_batch s), Rollback]\<rparr>\<rparr>"
    using flush_links_failed [of s R] by blast
  from 1 2 3 fast_loop_fst [of R rows s] 5 show ?thesis
    by (intro conjI)
qed

theorem chunk_failure_in_loop_isolated_witness:
  "flush_teachers refuse_teachers
     ((fast_init (connect empty_store))
        \<lparr>teacher_batch := replicate 1000 (None, ''Bob'', ''9876543210'', ''D2'', ''Primary'', ''G2'')\<rparr>) =
     (fast_init (connect empty_store))
        \<lparr>conn := (connect empty_store)
           \<lparr>calls := [InsertTeachers
               (replicate 1000 (None, ''Bob'', ''9876543210'', ''D2'', ''Primary'', ''G2'')),
              Rollback]\<rparr>\<rparr>
   \<and> flush_batches refuse_batches
     ((fast_init (connect empty_store))
        \<lparr>batch_batch := replicate 50 (''B1'', ''D1'', ''Production Import'', ''Primary'', ''G1'')\<rparr>) =
     (fast_init (connect empty_store))
        \<lparr>conn := (connect empty_store)
           \<lparr>calls := [InsertBatches
               (replicate 50 (''B1'', ''D1'', ''Production Import'', ''Primary'', ''G1'')),
              Rollback]\<rparr>\<rparr>
   \<and> exit_status (import_production_data ascii_digit refuse_teachers
       \<lparr>reachable = True, csv_file = Some [header_row, alice]\<rparr> empty_store) = 1
   \<and> store_after (import_production_data ascii_digit refuse_teachers
       \<lparr>reachable = True, csv_file = Some [header_row, alice]\<rparr> empty_store) = empty_store"
proof -
  let ?t = "(None, ''Bob'', ''9876543210'', ''D2'', ''Primary'', ''G2'')"
  let ?b = "(''B1'', ''D1'', ''Production Import'', ''Primary'', ''G1'')"
  let ?st = "(fast_init (connect empty_store))\<lparr>teacher_batch := replicate 1000 ?t\<rparr>"
  let ?sb = "(fast_init (connect empty_store))\<lparr>batch_batch := replicate 50 ?b\<rparr>"
  let ?w = "\<lparr>reachable = True, csv_file = Some [header_row, alice]\<rparr>"
  let ?ps = "snd (prod_loop ascii_digit [alice] prod_init)"
  note a = chunk_failure_in_loop_isolated [of ?st refuse_teachers "[alice]" ?w header_row
      ascii_digit ?ps empty_store]
  note t = chunk_failure_in_loop_isolated [of ?sb refuse_batches "[alice]" ?w header_row
      ascii_digit ?ps empty_store]
  have h0: "batch_size \<le> length (teacher_batch ?st) \<and>
      chunk_bad (teacher_bad refuse_teachers) (teacher_batch ?st)"
    by (simp add: chunk_bad_def refuse_teachers_def batch_size_def)
  from a have "batch_size \<le> length (teacher_batch ?st) \<and>
      chunk_bad (teacher_bad refuse_teachers) (teacher_batch ?st)
     \<longrightarrow> flush_teachers refuse_teachers ?st =
        ?st\<lparr>teacher_batch := [],
          conn := (conn ?st)\<lparr>working := committed (conn ?st),
                    calls := calls (conn ?st) @ [InsertTeachers (teacher_batch ?st), Rollback]\<rparr>\<rparr>"
    by (elim conjE)
  with h0 have "flush_teachers refuse_teachers ?st =
        ?st\<lparr>teacher_batch := [],
          conn := (conn ?st)\<lparr>working := committed (conn ?st),
                    calls := calls (conn ?st) @ [InsertTeachers (teacher_batch ?st), Rollback]\<rparr>\<rparr>"
    by (rule rev_mp)
  then have 0: "flush_teachers refuse_teachers ?st =
     (fast_init (connect empty_store))
        \<lparr>conn := (connect empty_store)
           \<lparr>calls := [InsertTeachers (replicate 1000 ?t), Rollback]\<rparr>\<rparr>"
    by (simp add: fast_init_def connect_def)
  have h1: "50 \<le> length (batch_batch ?sb) \<and> chunk_bad (batch_bad refuse_batches) (batch_batch ?sb)"
    by (simp add: chunk_bad_def refuse_batches_def)
  from t have "50 \<le> length (batch_batch ?sb) \<and> chunk_bad (batch_bad refuse_batches) (batch_batch ?sb)
     \<longrightarrow> flush_batches refuse_batches ?sb =
        ?sb\<lparr>batch_batch := [],
          conn := (conn ?sb)\<lparr>working := committed (conn ?sb),
                    calls := calls (conn ?sb) @ [InsertBatches (batch_batch ?sb), Rollback]\<rparr>\<rparr>"
    by (elim conjE)
  with h1 have "flush_batches refuse_batches ?sb =
        ?sb\<lparr>batch_batch := [],
          conn := (conn ?sb)\<lparr>working := committed (conn ?sb),
                    calls := calls (conn ?sb) @ [InsertBatches (batch_batch ?sb), Rollback]\<rparr>\<rparr>"
    by (rule rev_mp)
  then have 1: "flush_batches refuse_batches ?sb =
     (fast_init (connect empty_store))
        \<lparr>conn := (connect empty_store)
           \<lparr>calls := [InsertBatches (replicate 50 ?b), Rollback]\<rparr>\<rparr>"
    by (simp add: fast_init_def connect_def)
  have "fst (prod_loop ascii_digit [alice] prod_init) = None"
    by (simp only: prod_loop_fst) (simp add: alice_def)
  then have l: "prod_loop ascii_digit [alice] prod_init = (None, ?ps)"
    by (simp add: prod_eq_iff)
  have bad: "\<exists>k\<in>set (prod_calls ?ps). call_bad refuse_teachers k"
    by code_simp
  have h2: "reachable ?w \<and> csv_file ?w = Some (header_row # [alice])
       \<and> prod_loop ascii_digit [alice] prod_init = (None, ?ps)
       \<and> (\<exists>k\<in>set (prod_calls ?ps). call_bad refuse_teachers k)"
    using l bad by simp
  from a have "reachable ?w \<and> csv_file ?w = Some (header_row # [alice])
       \<and> prod_loop ascii_digit [alice] prod_init = (None, ?ps)
       \<and> (\<exists>k\<in>set (prod_calls ?ps). call_bad refuse_teachers k) \<longrightarrow>
         import_production_data ascii_digit refuse_teachers ?w empty_store =
           \<lparr>exit_status = 1, store_after = empty_store,
            trace = attempted refuse_teachers (prod_calls ?ps) @ [Rollback]\<rparr>
       \<and> call_bad refuse_teachers (last (attempted refuse_teachers (prod_calls ?ps)))"
    by (elim conjE)
  with h2 have "import_production_data ascii_digit refuse_teachers ?w empty_store =
           \<lparr>exit_status = 1, store_after = empty_store,
            trace = attempted refuse_teachers (prod_calls ?ps) @ [Rollback]\<rparr>
       \<and> call_bad refuse_teachers (last (attempted refuse_teachers (prod_calls ?ps)))"
    by (rule rev_mp)
  then have 2: "exit_status (import_production_data ascii_digit refuse_teachers ?w empty_store) = 1"
    and 3: "store_after (import_production_data ascii_digit refuse_teachers ?w empty_store) =
      empty_store"
    by simp_all
  from 0 1 2 3 show ?thesis by (intro conjI)
qed

section \<open>Thresholds and chunk sizes\<close>

lemma flush_teachers_thresholds:
  assumes "length (teacher_batch s) \<le> 1000" and "full_chunks (calls (conn s))"
  shows "length (teacher_batch (flush_teachers R s)) < 1000"
    and "full_chunks (calls (conn (flush_teachers R s)))"
    and "batch_batch (flush_teachers R s) = batch_batch s"
    and "batch_teacher_batch (flush_teachers R s) = batch_teacher_batch s"
  using assms
  by (auto simp: flush_teachers_eq full_chunks_def chunks_defs executemany_calls calls_commit
      calls_rollback batch_size_def)

lemma flush_batches_thresholds:
  assumes "length (batch_batch s) \<le> 50" and "full_chunks (calls (conn s))"
  shows "length (batch_batch (flush_batches R s)) < 50"
    and "full_chunks (calls (conn (flush_batches R s)))"
    and "teacher_batch (flush_batches R s) = teacher_batch s"
    and "batch_teacher_batch (flush_batches R s) = batch_teacher_batch s"
  using assms
  by (auto simp: flush_batches_eq full_chunks_def chunks_defs executemany_calls calls_commit
      calls_rollback)

lemma flush_links_thresholds:
  assumes "length (batch_teacher_batch s) \<le> 1000" and "full_chunks (calls (conn s))"
  shows "length (batch_teacher_batch (flush_links R s)) < 1000"
    and "full_chunks (calls (conn (flush_links R s)))"
    and "teacher_batch (flush_links R s) = teacher_batch s"
    and "batch_batch (flush_links R s) = batch_batch s"
  using assms
  by (auto simp: flush_links_eq full_chunks_def chunks_defs executemany_calls calls_commit
      calls_rollback batch_size_def)

lemma fast_queue_lengths:
  "length (teacher_batch (fast_queue d b st tg tid tn m s)) = Suc (length (teacher_batch s))"
  "length (batch_batch (fast_queue d b st tg tid tn m s)) \<le> Suc (length (batch_batch s))"
  "length (batch_teacher_batch (fast_queue d b st tg tid tn m s)) \<le>
     Suc (length (batch_teacher_batch s))"
  by (simp_all add: fast_queue_def Let_def)

lemma fast_flush_thresholds:
  assumes "length (teacher_batch s) \<le> 1000" and "length (batch_batch s) \<le> 50"
    and "length (batch_teacher_batch s) \<le> 1000" and "full_chunks (calls (conn s))"
  shows "below_thresholds (fast_flush R s) \<and> full_chunks (calls (conn (fast_flush R s)))"
proof -
  let ?s1 = "flush_teachers R s"
  let ?s2 = "flush_batches R ?s1"
  note t = flush_teachers_thresholds [OF assms(1,4), of R]
  from assms(2) t(3) have b1: "length (batch_batch ?s1) \<le> 50" by simp
  note b = flush_batches_thresholds [OF b1 t(2), of R]
  from assms(3) t(4) b(4) have l2: "length (batch_teacher_batch ?s2) \<le> 1000" by simp
  note l = flush_links_thresholds [OF l2 b(2), of R]
  from t(1) b(1) l b(3) show ?thesis
    by (simp add: fast_flush_def below_thresholds_def)
qed

lemma fast_row_thresholds:
  assumes "below_thresholds s" and "full_chunks (calls (conn s))"
  shows "below_thresholds (snd (fast_row R row s)) \<and>
         full_chunks (calls (conn (snd (fast_row R row s))))"
proof (cases "accepted fast_clean_phone row")
  case True
  let ?q = "fast_queue (row ! 0) (row ! 1) (row ! 2) (row ! 3) (row ! 4)
          (row ! 5) (the (fast_clean_phone (row ! 6))) s"
  from assms(1) fast_queue_lengths [of "row ! 0" "row ! 1" "row ! 2" "row ! 3" "row ! 4"
      "row ! 5" "the (fast_clean_phone (row ! 6))" s]
  have 1: "length (teacher_batch ?q) \<le> 1000" "length (batch_batch ?q) \<le> 50"
    "length (batch_teacher_batch ?q) \<le> 1000"
    by (simp_all add: below_thresholds_def)
  from assms(2) have 2: "full_chunks (calls (conn ?q))"
    by (simp add: fast_queue_conn)
  from fast_flush_thresholds [OF 1 2, of R] show ?thesis
    by (simp only: fast_row_accepted [OF True] snd_conv)
next
  case False
  show ?thesis
  proof (cases "length row > 7")
    case True
    with assms show ?thesis by (simp add: fast_row_long)
  next
    case False
    with assms \<open>\<not> accepted fast_clean_phone row\<close> show ?thesis
      by (simp add: fast_row_skip)
  qed
qed

lemma fast_loop_thresholds:
  assumes "below_thresholds s" and "full_chunks (calls (conn s))"
  shows "below_thresholds (snd (fast_loop R rows s)) \<and>
         full_chunks (calls (conn (snd (fast_loop R rows s))))"
  using assms
proof (induction rows arbitrary: s)
  case Nil
  then show ?case by simp
next
  case (Cons row rows)
  obtain e s1 where r: "fast_row R row s = (e, s1)"
    by (cases "fast_row R row s")
  from fast_row_thresholds [OF Cons.prems, of R row] r
  have 1: "below_thresholds s1" "full_chunks (calls (conn s1))" by simp_all
  show ?case
  proof (cases e)
    case None
    with r Cons.IH [OF 1] show ?thesis by simp
  next
    case (Some a)
    with r 1 show ?thesis by simp
  qed
qed

lemma thresholds_fast_init:
  "below_thresholds (fast_init (connect db))" "full_chunks (calls (conn (fast_init (connect db))))"
  by (simp_all add: below_thresholds_def full_chunks_def chunks_defs fast_init_def connect_def)

lemma slices_Nil: "slices n [] = []"
  by (subst slices.simps) simp

lemma slices_step: "0 < n \<Longrightarrow> xs \<noteq> [] \<Longrightarrow> slices n xs = take n xs # slices n (drop n xs)"
  by (subst slices.simps) simp

lemma slices_chunks:
  assumes "0 < n" and "\<forall>ch\<in>set chs. length ch = n" and "length buf < n"
  shows "slices n (concat chs @ buf) = chs @ (if buf = [] then [] else [buf])"
  using assms(2)
proof (induction chs)
  case Nil
  show ?case
  proof (cases "buf = []")
    case True
    then show ?thesis by (simp add: slices_Nil)
  next
    case False
    with assms(1,3) show ?thesis
      by (simp add: slices_step slices_Nil)
  qed
next
  case (Cons c cs)
  from Cons.prems have c: "length c = n" and cs: "\<forall>ch\<in>set cs. length ch = n"
    by simp_all
  from c assms(1) have "c \<noteq> []" by auto
  then have "concat (c # cs) @ buf \<noteq> []" by simp
  from slices_step [OF assms(1) this] c Cons.IH [OF cs] show ?case
    by simp
qed

lemma slices_two:
  assumes "0 < n" and "n < length xs" and "length xs \<le> 2 * n"
  shows "slices n xs = [take n xs, drop n xs]"
proof -
  from assms have 1: "xs \<noteq> []" and 2: "drop n xs \<noteq> []" by auto
  from assms have 3: "take n (drop n xs) = drop n xs" and 4: "drop (n + n) xs = []"
    by simp_all
  show ?thesis
    by (simp add: slices_step [OF assms(1) 1] slices_step [OF assms(1) 2] 3 4 slices_Nil)
qed

lemma chunks_of_inserts:
  "teacher_chunks (map InsertTeachers xs) = xs"
  "teacher_chunks (map InsertBatches ys) = []"
  "teacher_chunks (map InsertLinks zs) = []"
  "batch_chunks (map InsertTeachers xs) = []"
  "batch_chunks (map InsertBatches ys) = ys"
  "batch_chunks (map InsertLinks zs) = []"
  "link_chunks (map InsertTeachers xs) = []"
  "link_chunks (map InsertBatches ys) = []"
  "link_chunks (map InsertLinks zs) = zs"
  by (simp_all add: chunks_defs comp_def)

lemma chunks_append:
  "teacher_chunks (xs @ ys) = teacher_chunks xs @ teacher_chunks ys"
  "batch_chunks (xs @ ys) = batch_chunks xs @ batch_chunks ys"
  "link_chunks (xs @ ys) = link_chunks xs @ link_chunks ys"
  by (simp_all add: chunks_defs)

lemma chunks_single:
  "teacher_chunks [InsertBatches b] = []" "teacher_chunks [Commit] = []"
  "teacher_chunks [Rollback] = []" "teacher_chunks [InsertTeachers t] = [t]"
  "teacher_chunks [InsertLinks l] = []"
  "batch_chunks [InsertBatches b] = [b]" "batch_chunks [Commit] = []"
  "batch_chunks [Rollback] = []" "batch_chunks [InsertTeachers t] = []"
  "batch_chunks [InsertLinks l] = []"
  "link_chunks [InsertBatches b] = []" "link_chunks [Commit] = []"
  "link_chunks [Rollback] = []" "link_chunks [InsertTeachers t] = []"
  "link_chunks [InsertLinks l] = [l]"
  "teacher_chunks [] = []" "batch_chunks [] = []" "link_chunks [] = []"
  by (simp_all add: chunks_defs)

lemma prod_calls_chunks:
  "batch_chunks (prod_calls ps) =
     (if batch_values (batch_data ps) = [] then [] else [batch_values (batch_data ps)])"
  "teacher_chunks (prod_calls ps) = slices batch_size (teacher_records ps)"
  "link_chunks (prod_calls ps) = slices batch_size (batch_teacher_records ps)"
  by (simp_all add: prod_calls_def chunks_append chunks_of_inserts chunks_single)

lemma import_data_written:
  assumes "reachable w" and "csv_file w = Some (header # rows)"
    and "fast_loop R rows (fast_init (connect db)) = (None, s)"
  shows "trace (import_data R w db) =
           calls (conn s) @ attempted R (final_calls s) @
             (if \<exists>k\<in>set (final_calls s). call_bad R k then [Rollback] else [Commit])"
proof -
  have "fast_body R (csv_file w) (connect db) = finish (exec_calls R (final_calls s)) (conn s)"
    using assms(2,3) by (simp add: fast_body_def fast_final_finish fast_final_writes_exec_fun)
  with assms(1) show ?thesis
    by (simp add: import_data_settle finish_exec_calls)
qed

lemma teacher_chunks_final:
  "teacher_chunks (attempted R (final_calls s)) =
     (if teacher_batch s = [] then [] else [teacher_batch s])"
  by (simp add: final_calls_def chunks_defs)

lemma import_data_teacher_chunks:
  assumes "reachable w" and "csv_file w = Some (header # rows)"
    and "\<forall>r\<in>set rows. length r \<le> 7"
  shows "teacher_chunks (trace (import_data R w db)) =
           slices 1000 (map (row_teacher fast_clean_phone) (filter (accepted fast_clean_phone) rows))"
proof -
  from assms(3) have "fst (fast_loop R rows (fast_init (connect db))) = None"
    by (auto simp: fast_loop_fst)
  then obtain s where l: "fast_loop R rows (fast_init (connect db)) = (None, s)"
    by (cases "fast_loop R rows (fast_init (connect db))") auto
  from fast_loop_thresholds [OF thresholds_fast_init [of db], of R rows] l
  have b: "length (teacher_batch s) < 1000"
    and f: "\<forall>ch\<in>set (teacher_chunks (calls (conn s))). length ch = 1000"
    by (simp_all add: below_thresholds_def full_chunks_def)
  from fast_loop_queued [OF l]
  have q: "concat (teacher_chunks (calls (conn s))) @ teacher_batch s =
             map (row_teacher fast_clean_phone) (filter (accepted fast_clean_phone) rows)"
    by (simp add: queued_fast_init queued_teachers_def [of s])
  have "teacher_chunks (trace (import_data R w db)) =
          teacher_chunks (calls (conn s)) @
            (if teacher_batch s = [] then [] else [teacher_batch s])"
    by (simp add: import_data_written [OF assms(1,2) l] chunks_append teacher_chunks_final
        chunks_single)
  also have "\<dots> = slices 1000 (concat (teacher_chunks (calls (conn s))) @ teacher_batch s)"
    using slices_chunks [OF _ f b] by simp
  finally show ?thesis
    by (simp only: q)
qed

lemma first_batches_distinct:
  "\<forall>r\<in>set rows. names_batch cleaner r \<Longrightarrow> distinct (map (\<lambda>r. r ! 1) rows) \<Longrightarrow>
   \<forall>r\<in>set rows. r ! 1 \<notin> seen \<Longrightarrow>
     first_batches cleaner seen rows = map row_batch rows"
proof (induction rows arbitrary: seen)
  case Nil
  then show ?case by simp
next
  case (Cons row rows)
  from Cons.prems(2) have "row ! 1 \<notin> (\<lambda>r. r ! 1) ` set rows"
    by simp
  then have "\<forall>r\<in>set rows. r ! 1 \<noteq> row ! 1"
    by (auto simp: image_iff)
  with Cons.prems(3) have 1: "\<forall>r\<in>set rows. r ! 1 \<notin> insert (row ! 1) seen"
    by simp
  from Cons.prems have 2: "\<forall>r\<in>set rows. names_batch cleaner r"
    and 3: "distinct (map (\<lambda>r. r ! 1) rows)"
    and 4: "names_batch cleaner row" and 5: "row ! 1 \<notin> seen"
    by simp_all
  from Cons.IH [OF 2 3 1] 4 5 show ?case
    by simp
qed

lemma call_bad_accept_all: "\<not> call_bad accept_all k"
  by (cases k) (simp_all add: chunk_bad_def accept_all_def)

lemma numbered_phone:
  "fast_clean_phone ''9876543210'' = Some ''9876543210''"
  "clean_phone_number ascii_digit ''9876543210'' = Some ''9876543210''"
  by (simp_all add: fast_clean_phone_def clean_phone_number_def ascii_digit_def)

lemma numbered_rows_named:
  "\<forall>r\<in>set (numbered_rows n). names_batch fast_clean_phone r"
  "\<forall>r\<in>set (numbered_rows n). names_batch (clean_phone_number ascii_digit) r"
  "\<forall>r\<in>set (numbered_rows n). length r \<le> 7"
  by (auto simp: numbered_rows_def names_batch_def accepted_def numbered_phone has_batch_def)

lemma numbered_rows_distinct: "distinct (map (\<lambda>r. r ! 1) (numbered_rows n))"
proof -
  have "inj_on (\<lambda>i. ''B'' @ replicate i (CHR ''x'')) (set [0..<n])"
    by (rule inj_onI) simp
  then have "distinct (map (\<lambda>i. ''B'' @ replicate i (CHR ''x'')) [0..<n])"
    by (simp add: distinct_map)
  moreover have "map (\<lambda>r. r ! 1) (numbered_rows n) =
                   map (\<lambda>i. ''B'' @ replicate i (CHR ''x'')) [0..<n]"
    by (simp add: numbered_rows_def)
  ultimately show ?thesis by simp
qed

lemma numbered_rows_batches:
  "first_batches fast_clean_phone {} (numbered_rows n) = map row_batch (numbered_rows n)"
  "first_batches (clean_phone_number ascii_digit) {} (numbered_rows n) =
     map row_batch (numbered_rows n)"
  by (rule first_batches_distinct [OF numbered_rows_named(1) numbered_rows_distinct], simp)
    (rule first_batches_distinct [OF numbered_rows_named(2) numbered_rows_distinct], simp)

lemma length_numbered_rows: "length (numbered_rows n) = n"
  by (simp add: numbered_rows_def)

lemma import_data_batch_chunks:
  assumes "reachable w" and "csv_file w = Some (header # rows)"
    and "\<forall>r\<in>set rows. length r \<le> 7" and "\<forall>k. \<not> call_bad R k"
  shows "batch_chunks (trace (import_data R w db)) =
           slices 50 (first_batches fast_clean_phone {} rows)"
proof -
  from assms(3) have "fst (fast_loop R rows (fast_init (connect db))) = None"
    by (auto simp: fast_loop_fst)
  then obtain s where l: "fast_loop R rows (fast_init (connect db)) = (None, s)"
    by (cases "fast_loop R rows (fast_init (connect db))") auto
  from fast_loop_thresholds [OF thresholds_fast_init [of db], of R rows] l
  have b: "length (batch_batch s) < 50"
    and f: "\<forall>ch\<in>set (batch_chunks (calls (conn s))). length ch = 50"
    by (simp_all add: below_thresholds_def full_chunks_def)
  from fast_loop_queued [OF l]
  have q: "concat (batch_chunks (calls (conn s))) @ batch_batch s =
             first_batches fast_clean_phone {} rows"
    by (simp add: queued_fast_init queued_batches_def [of s])
  from assms(4) have a: "attempted R (final_calls s) = final_calls s"
    by (simp add: attempted_all)
  have fc: "batch_chunks (final_calls s) = (if batch_batch s = [] then [] else [batch_batch s])"
    by (simp add: final_calls_def chunks_append chunks_single)
  have "trace (import_data R w db) = calls (conn s) @ final_calls s @ [Commit]"
    using assms(4) by (simp only: import_data_written [OF assms(1,2) l] a) simp
  then have "batch_chunks (trace (import_data R w db)) =
          batch_chunks (calls (conn s)) @
            (if batch_batch s = [] then [] else [batch_batch s])"
    by (simp only: chunks_append fc chunks_single append_Nil2)
  also have "\<dots> = slices 50 (concat (batch_chunks (calls (conn s))) @ batch_batch s)"
    using slices_chunks [OF _ f b] by simp
  finally show ?thesis
    by (simp only: q)
qed

text \<open>
  C7 fails in \<^verbatim>\<open>production-import.py\<close>, which flushes nothing while it reads: for
  a file of 51 rows with 51 batch names it hands all 51 batch tuples to one bulk insert,
  where \<^verbatim>\<open>fast-import.py\<close> writes a chunk of 50 in the loop and the last one in
  the final flush.
\<close>

theorem flush_threshold_counterexample:
  "map length (batch_chunks (trace (import_production_data ascii_digit accept_all
      \<lparr>reachable = True, csv_file = Some (header_row # numbered_rows 51)\<rparr> empty_store))) = [51]
   \<and> map length (batch_chunks (trace (import_data accept_all
      \<lparr>reachable = True, csv_file = Some (header_row # numbered_rows 51)\<rparr> empty_store))) =
     [50, 1]"
proof -
  let ?w = "\<lparr>reachable = True, csv_file = Some (header_row # numbered_rows 51)\<rparr>"
  have up: "reachable ?w" and fl: "csv_file ?w = Some (header_row # numbered_rows 51)"
    by simp_all
  have "fst (prod_loop ascii_digit (numbered_rows 51) prod_init) = None"
    using numbered_rows_named(3) [of 51] by (auto simp: prod_loop_fst)
  then obtain ps where l: "prod_loop ascii_digit (numbered_rows 51) prod_init = (None, ps)"
    by (cases "prod_loop ascii_digit (numbered_rows 51) prod_init") auto
  from prod_loop_records [OF l]
  have bv: "batch_values (batch_data ps) = map row_batch (numbered_rows 51)"
    by (simp add: prod_init_def batch_values_def numbered_rows_batches)
  then have ne: "batch_values (batch_data ps) \<noteq> []"
    using length_numbered_rows [of 51] by auto
  have 1: "map length (batch_chunks (trace (import_production_data ascii_digit accept_all ?w
             empty_store))) = [51]"
    by (simp add: import_production_data_written [OF up fl l] call_bad_accept_all
        chunks_append prod_calls_chunks chunks_single ne)
      (simp add: bv length_numbered_rows)
  have "batch_chunks (trace (import_data accept_all ?w empty_store)) =
          slices 50 (map row_batch (numbered_rows 51))"
    using import_data_batch_chunks [OF up fl numbered_rows_named(3) [of 51], of accept_all
        empty_store]
    by (simp add: call_bad_accept_all numbered_rows_batches)
  also have "\<dots> = [take 50 (map row_batch (numbered_rows 51)),
                    drop 50 (map row_batch (numbered_rows 51))]"
    by (rule slices_two) (simp_all add: length_numbered_rows)
  finally have 2: "map length (batch_chunks (trace (import_data accept_all ?w empty_store))) =
      [50, 1]"
    by (simp add: length_numbered_rows)
  from 1 2 show ?thesis by (rule conjI)
qed

lemma import_production_data_chunks:
  assumes "prod_loop isdigit rows prod_init = (None, ps)" and "\<forall>k. \<not> call_bad R k"
  shows "batch_chunks (trace (import_production_data isdigit R
             \<lparr>reachable = True, csv_file = Some (header # rows)\<rparr> db)) =
           (if batch_values (batch_data ps) = [] then [] else [batch_values (batch_data ps)])"
    and "teacher_chunks (trace (import_production_data isdigit R
             \<lparr>reachable = True, csv_file = Some (header # rows)\<rparr> db)) =
           slices 1000 (teacher_records ps)"
    and "link_chunks (trace (import_production_data isdigit R
             \<lparr>reachable = True, csv_file = Some (header # rows)\<rparr> db)) =
           slices 1000 (batch_teacher_records ps)"
proof -
  let ?w = "\<lparr>reachable = True, csv_file = Some (header # rows)\<rparr>"
  have up: "reachable ?w" and fl: "csv_file ?w = Some (header # rows)"
    by simp_all
  have t: "trace (import_production_data isdigit R ?w db) = prod_calls ps @ [Commit]"
    using assms(2) by (simp add: import_production_data_written [OF up fl assms(1)])
  show "batch_chunks (trace (import_production_data isdigit R ?w db)) =
           (if batch_values (batch_data ps) = [] then [] else [batch_values (batch_data ps)])"
    and "teacher_chunks (trace (import_production_data isdigit R ?w db)) =
           slices 1000 (teacher_records ps)"
    and "link_chunks (trace (import_production_data isdigit R ?w db)) =
           slices 1000 (batch_teacher_records ps)"
    by (simp_all only: t chunks_append prod_calls_chunks chunks_single append_Nil2
        batch_size_def)
qed

lemma all_accepted:
  assumes "\<forall>r\<in>set rows. accepted cleaner r"
  shows "filter (accepted cleaner) rows = rows" and "\<forall>r\<in>set rows. length r \<le> 7"
  using assms by (simp_all add: accepted_def)

lemma slices_1500:
  assumes "length xs = 1500"
  shows "slices 1000 (map f xs) = [map f (take 1000 xs), map f (drop 1000 xs)]"
proof -
  have "slices 1000 (map f xs) = [take 1000 (map f xs), drop 1000 (map f xs)]"
    by (rule slices_two) (simp_all add: assms)
  then show ?thesis by (simp only: take_map drop_map)
qed

text \<open>
  C7, as amended. In \<^verbatim>\<open>fast-import.py\<close> each list is written and emptied in the
  round in which it reaches its threshold: after every round the teacher and link lists
  hold fewer than 1000 tuples and the batch list fewer than 50, and every chunk written
  inside the loop has exactly 1000 teacher tuples, 50 batch tuples or 1000 link tuples.
  For 1500 accepted rows the teacher insert is called exactly twice, with the tuples of
  the first 1000 rows and then with those of the last 500, whatever the store refuses.
  \<^verbatim>\<open>production-import.py\<close> writes nothing while it reads; when the store refuses
  nothing it hands all batch tuples to one call, whatever their number, and the teacher
  and link tuples in slices of 1000, so for 1500 accepted rows its teacher insert is
  called with the same two chunks.
\<close>

theorem flush_thresholds:
  "(fast_loop R rows (fast_init (connect db)) = (e, s) \<longrightarrow>
       length (teacher_batch s) < 1000 \<and> length (batch_batch s) < 50
     \<and> length (batch_teacher_batch s) < 1000
     \<and> (\<forall>ch\<in>set (teacher_chunks (calls (conn s))). length ch = 1000)
     \<and> (\<forall>ch\<in>set (batch_chunks (calls (conn s))). length ch = 50)
     \<and> (\<forall>ch\<in>set (link_chunks (calls (conn s))). length ch = 1000))
   \<and> (length rows = 1500 \<and> (\<forall>r\<in>set rows. accepted fast_clean_phone r) \<longrightarrow>
        teacher_chunks (trace (import_data R
            \<lparr>reachable = True, csv_file = Some (header # rows)\<rparr> db)) =
          [map (row_teacher fast_clean_phone) (take 1000 rows),
           map (row_teacher fast_clean_phone) (drop 1000 rows)])
   \<and> (prod_loop isdigit rows prod_init = (None, ps) \<and> (\<forall>k. \<not> call_bad R k) \<longrightarrow>
        batch_chunks (trace (import_production_data isdigit R
            \<lparr>reachable = True, csv_file = Some (header # rows)\<rparr> db)) =
          (if batch_values (batch_data ps) = [] then [] else [batch_values (batch_data ps)])
      \<and> teacher_chunks (trace (import_production_data isdigit R
            \<lparr>reachable = True, csv_file = Some (header # rows)\<rparr> db)) =
          slices 1000 (teacher_records ps)
      \<and> link_chunks (trace (import_production_data isdigit R
            \<lparr>reachable = True, csv_file = Some (header # rows)\<rparr> db)) =
          slices 1000 (batch_teacher_records ps))
   \<and> (length rows = 1500 \<and> (\<forall>r\<in>set rows. accepted (clean_phone_number isdigit) r)
       \<and> (\<forall>k. \<not> call_bad R k) \<longrightarrow>
        teacher_chunks (trace (import_production_data isdigit R
            \<lparr>reachable = True, csv_file = Some (header # rows)\<rparr> db)) =
          [map (row_teacher (clean_phone_number isdigit)) (take 1000 rows),
           map (row_teacher (clean_phone_number isdigit)) (drop 1000 rows)])"
proof -
  let ?w = "\<lparr>reachable = True, csv_file = Some (header # rows)\<rparr>"
  have up: "reachable ?w" and fl: "csv_file ?w = Some (header # rows)"
    by simp_all
  have 1: "fast_loop R rows (fast_init (connect db)) = (e, s) \<longrightarrow>
       length (teacher_batch s) < 1000 \<and> length (batch_batch s) < 50
     \<and> length (batch_teacher_batch s) < 1000
     \<and> (\<forall>ch\<in>set (teacher_chunks (calls (conn s))). length ch = 1000)
     \<and> (\<forall>ch\<in>set (batch_chunks (calls (conn s))). length ch = 50)
     \<and> (\<forall>ch\<in>set (link_chunks (calls (conn s))). length ch = 1000)"
  proof
    assume "fast_loop R rows (fast_init (connect db)) = (e, s)"
    with fast_loop_thresholds [OF thresholds_fast_init [of db], of R rows]
    show "length (teacher_batch s) < 1000 \<and> length (batch_batch s) < 50
     \<and> length (batch_teacher_batch s) < 1000
     \<and> (\<forall>ch\<in>set (teacher_chunks (calls (conn s))). length ch = 1000)
     \<and> (\<forall>ch\<in>set (batch_chunks (calls (conn s))). length ch = 50)
     \<and> (\<forall>ch\<in>set (link_chunks (calls (conn s))). length ch = 1000)"
      by (simp add: below_thresholds_def full_chunks_def)
  qed
  have 2: "length rows = 1500 \<and> (\<forall>r\<in>set rows. accepted fast_clean_phone r) \<longrightarrow>
        teacher_chunks (trace (import_data R ?w db)) =
          [map (row_teacher fast_clean_phone) (take 1000 rows),
           map (row_teacher fast_clean_phone) (drop 1000 rows)]"
  proof (intro impI, elim conjE)
    assume n: "length rows = 1500" and a: "\<forall>r\<in>set rows. accepted fast_clean_phone r"
    from import_data_teacher_chunks [OF up fl all_accepted(2) [OF a], of R db]
    show "teacher_chunks (trace (import_data R ?w db)) =
          [map (row_teacher fast_clean_phone) (take 1000 rows),
           map (row_teacher fast_clean_phone) (drop 1000 rows)]"
      by (simp only: all_accepted(1) [OF a] slices_1500 [OF n])
  qed
  have 3: "prod_loop isdigit rows prod_init = (None, ps) \<and> (\<forall>k. \<not> call_bad R k) \<longrightarrow>
        batch_chunks (trace (import_production_data isdigit R ?w db)) =
          (if batch_values (batch_data ps) = [] then [] else [batch_values (batch_data ps)])
      \<and> teacher_chunks (trace (import_production_data isdigit R ?w db)) =
          slices 1000 (teacher_records ps)
      \<and> link_chunks (trace (import_production_data isdigit R ?w db)) =
          slices 1000 (batch_teacher_records ps)"
    using import_production_data_chunks [of isdigit rows ps R header db] by blast
  have 4: "length rows = 1500 \<and> (\<forall>r\<in>set rows. accepted (clean_phone_number isdigit) r)
       \<and> (\<forall>k. \<not> call_bad R k) \<longrightarrow>
        teacher_chunks (trace (import_production_data isdigit R ?w db)) =
          [map (row_teacher (clean_phone_number isdigit)) (take 1000 rows),
           map (row_teacher (clean_phone_number isdigit)) (drop 1000 rows)]"
  proof (intro impI, elim conjE)
    let ?cl = "clean_phone_number isdigit"
    assume n: "length rows = 1500" and a: "\<forall>r\<in>set rows. accepted ?cl r"
      and ok: "\<forall>k. \<not> call_bad R k"
    from all_accepted(2) [OF a] have "fst (prod_loop isdigit rows prod_init) = None"
      by (auto simp: prod_loop_fst)
    then obtain ps' where l: "prod_loop isdigit rows prod_init = (None, ps')"
      by (cases "prod_loop isdigit rows prod_init") auto
    from prod_loop_records [OF l]
    have "teacher_records ps' = map (row_teacher ?cl) rows"
      by (simp add: prod_init_def all_accepted(1) [OF a])
    with import_production_data_chunks(2) [OF l ok, of header db]
    show "teacher_chunks (trace (import_production_data isdigit R ?w db)) =
          [map (row_teacher ?cl) (take 1000 rows), map (row_teacher ?cl) (drop 1000 rows)]"
      by (simp only: slices_1500 [OF n])
  qed
  from 1 2 3 4 show ?thesis by (intro conjI)
qed

theorem flush_thresholds_witness:
  "length (teacher_batch (snd (fast_loop accept_all (replicate 1500 alice)
      (fast_init (connect empty_store))))) < 1000
   \<and> map length (teacher_chunks (trace (import_data accept_all
      \<lparr>reachable = True, csv_file = Some (header_row # replicate 1500 alice)\<rparr> empty_store))) =
     [1000, 500]
   \<and> map length (teacher_chunks (trace (import_production_data ascii_digit accept_all
      \<lparr>reachable = True, csv_file = Some (header_row # replicate 1500 alice)\<rparr> empty_store))) =
     [1000, 500]
   \<and> length (batch_chunks (trace (import_production_data ascii_digit accept_all
      \<lparr>reachable = True, csv_file = Some (header_row # replicate 1500 alice)\<rparr> empty_store))) =
     1"
proof -
  let ?rows = "replicate 1500 alice"
  let ?w = "\<lparr>reachable = True, csv_file = Some (header_row # ?rows)\<rparr>"
  let ?after = "snd (fast_loop accept_all ?rows (fast_init (connect empty_store)))"
  let ?ps = "snd (prod_loop ascii_digit ?rows prod_init)"
  note t = flush_thresholds [of accept_all ?rows empty_store None ?after header_row
      ascii_digit ?ps]
  have a1: "accepted fast_clean_phone alice"
    and a2: "accepted (clean_phone_number ascii_digit) alice"
    by (simp_all add: accepted_def alice_def alice_mobile)
  have le: "\<forall>r\<in>set ?rows. length r \<le> 7"
    by (simp add: alice_def)
  have "fst (fast_loop accept_all ?rows (fast_init (connect empty_store))) = None"
    using le by (simp only: fast_loop_fst) auto
  then have h1: "fast_loop accept_all ?rows (fast_init (connect empty_store)) = (None, ?after)"
    by (simp add: prod_eq_iff)
  have "fst (prod_loop ascii_digit ?rows prod_init) = None"
    using le by (simp only: prod_loop_fst) auto
  then have pl: "prod_loop ascii_digit ?rows prod_init = (None, ?ps)"
    by (simp add: prod_eq_iff)
  have h2: "length ?rows = 1500 \<and> (\<forall>r\<in>set ?rows. accepted fast_clean_phone r)"
    using a1 by simp
  have h3: "prod_loop ascii_digit ?rows prod_init = (None, ?ps) \<and>
      (\<forall>k. \<not> call_bad accept_all k)"
    using pl by (simp add: call_bad_accept_all)
  have h4: "length ?rows = 1500 \<and> (\<forall>r\<in>set ?rows. accepted (clean_phone_number ascii_digit) r)
       \<and> (\<forall>k. \<not> call_bad accept_all k)"
    using a2 by (simp add: call_bad_accept_all)
  from t have "fast_loop accept_all ?rows (fast_init (connect empty_store)) = (None, ?after) \<longrightarrow>
       length (teacher_batch ?after) < 1000 \<and> length (batch_batch ?after) < 50
     \<and> length (batch_teacher_batch ?after) < 1000
     \<and> (\<forall>ch\<in>set (teacher_chunks (calls (conn ?after))). length ch = 1000)
     \<and> (\<forall>ch\<in>set (batch_chunks (calls (conn ?after))). length ch = 50)
     \<and> (\<forall>ch\<in>set (link_chunks (calls (conn ?after))). length ch = 1000)"
    by (elim conjE)
  with h1 have 0: "length (teacher_batch ?after) < 1000"
    by simp
  from t have "length ?rows = 1500 \<and> (\<forall>r\<in>set ?rows. accepted fast_clean_phone r) \<longrightarrow>
        teacher_chunks (trace (import_data accept_all ?w empty_store)) =
          [map (row_teacher fast_clean_phone) (take 1000 ?rows),
           map (row_teacher fast_clean_phone) (drop 1000 ?rows)]"
    by (elim conjE)
  with h2 have 1: "teacher_chunks (trace (import_data accept_all ?w empty_store)) =
          [map (row_teacher fast_clean_phone) (take 1000 ?rows),
           map (row_teacher fast_clean_phone) (drop 1000 ?rows)]"
    by (rule rev_mp)
  from t have "prod_loop ascii_digit ?rows prod_init = (None, ?ps) \<and>
       (\<forall>k. \<not> call_bad accept_all k) \<longrightarrow>
        batch_chunks (trace (import_production_data ascii_digit accept_all ?w empty_store)) =
          (if batch_values (batch_data ?ps) = [] then [] else [batch_values (batch_data ?ps)])
      \<and> teacher_chunks (trace (import_production_data ascii_digit accept_all ?w empty_store)) =
          slices 1000 (teacher_records ?ps)
      \<and> link_chunks (trace (import_production_data ascii_digit accept_all ?w empty_store)) =
          slices 1000 (batch_teacher_records ?ps)"
    by (elim conjE)
  with h3 have b: "batch_chunks (trace (import_production_data ascii_digit accept_all ?w
        empty_store)) =
          (if batch_values (batch_data ?ps) = [] then [] else [batch_values (batch_data ?ps)])"
    by simp
  from prod_loop_records [OF pl]
  have "batch_values (batch_data ?ps) =
          first_batches (clean_phone_number ascii_digit) {} (alice # replicate 1499 alice)"
    by (simp add: prod_init_def batch_values_def replicate_Suc [symmetric] del: replicate_Suc)
  then have "batch_values (batch_data ?ps) \<noteq> []"
    using a2 by (simp add: names_batch_def alice_def has_batch_def)
  with b have 3: "length (batch_chunks (trace (import_production_data ascii_digit accept_all
        ?w empty_store))) = 1"
    by simp
  from t have "length ?rows = 1500 \<and> (\<forall>r\<in>set ?rows. accepted (clean_phone_number ascii_digit) r)
       \<and> (\<forall>k. \<not> call_bad accept_all k) \<longrightarrow>
        teacher_chunks (trace (import_production_data ascii_digit accept_all ?w empty_store)) =
          [map (row_teacher (clean_phone_number ascii_digit)) (take 1000 ?rows),
           map (row_teacher (clean_phone_number ascii_digit)) (drop 1000 ?rows)]"
    by (elim conjE)
  with h4 have 2: "teacher_chunks (trace (import_production_data ascii_digit accept_all ?w
        empty_store)) =
          [map (row_teacher (clean_phone_number ascii_digit)) (take 1000 ?rows),
           map (row_teacher (clean_phone_number ascii_digit)) (drop 1000 ?rows)]"
    by (rule rev_mp)
  have 12: "map length (teacher_chunks (trace (import_data accept_all ?w empty_store))) =
     [1000, 500]"
    "map length (teacher_chunks (trace (import_production_data ascii_digit accept_all ?w
        empty_store))) = [1000, 500]"
    by (simp_all only: 1 2) simp_all
  from 0 12 3 show ?thesis by (intro conjI)
qed

end
